theory Spec2Isabelle
  imports Complex_Main "HOL-Library.Multiset" "HOL-Library.Option_ord"
begin

section \<open>Python and numpy preliminaries\<close>

text \<open>
  The embedding follows \<^verbatim>\<open>Code/SLIM_BPR_Python.py\<close>. Floating-point numbers
  (float32 and float64) are modelled by the reals and their arithmetic is exact, so the
  rounding of the arithmetic, overflow and NaN are outside the model; the one explicit
  cast of the code, \<^verbatim>\<open>astype(np.float32)\<close> in \<^verbatim>\<open>check_matrix\<close>, does round
  (\<open>float32\<close> below). Every index is a natural number, so numpy's negative
  (wrap-around) indices are outside the model as well. Every exception the modelled code
  can raise on such inputs is a value of \<open>error\<close>.
\<close>

datatype error = IndexError | KeyError | ValueError | AssertionError | ZeroDivisionError
  | AttributeError

text \<open>The Python slices \<^verbatim>\<open>xs[:m]\<close> and \<^verbatim>\<open>xs[m:]\<close>: a negative bound
  counts from the end, and both clamp at the ends of the list.\<close>

definition slice_to :: "'a list \<Rightarrow> int \<Rightarrow> 'a list" where
  "slice_to xs m = (if m < 0 then take (nat (int (length xs) + m)) xs else take (nat m) xs)"

definition slice_from :: "'a list \<Rightarrow> int \<Rightarrow> 'a list" where
  "slice_from xs m = (if m < 0 then drop (nat (int (length xs) + m)) xs else drop (nat m) xs)"

text \<open>
  \<^verbatim>\<open>np.argsort\<close> returns the indices that sort its argument in ascending order. numpy
  does not fix the order of equal keys, so the functions that sort take the sorting
  routine as a parameter \<open>srt\<close>; \<open>is_argsort\<close> is all that is known of it, and
  \<open>argsort_stable\<close> is one routine that meets it.
\<close>

definition is_argsort :: "('a::linorder list \<Rightarrow> nat list) \<Rightarrow> bool" where
  "is_argsort srt =
     (\<forall>xs. mset (srt xs) = mset [0..<length xs] \<and> sorted (map (\<lambda>i. xs ! i) (srt xs)))"

definition argsort_stable :: "'a::linorder list \<Rightarrow> nat list" where
  "argsort_stable xs = sort_key (\<lambda>i. xs ! i) [0..<length xs]"

subsection \<open>Dense matrices\<close>

text \<open>A two-dimensional \<^verbatim>\<open>np.ndarray\<close> is the list of its rows; \<open>is_matrix\<close>
  is the invariant that it is rectangular.\<close>

type_synonym ndarray = "real list list"

definition is_matrix :: "nat \<Rightarrow> nat \<Rightarrow> ndarray \<Rightarrow> bool" where
  "is_matrix r c M = (length M = r \<and> list_all (\<lambda>row. length row = c) M)"

definition shape :: "ndarray \<Rightarrow> nat \<times> nat" where
  "shape M = (length M, case M of [] \<Rightarrow> 0 | row # _ \<Rightarrow> length row)"

definition column :: "ndarray \<Rightarrow> nat \<Rightarrow> real list" where
  "column M c = map (\<lambda>row. row ! c) M"

text \<open>\<^verbatim>\<open>np.count_nonzero\<close> of a one-dimensional array.\<close>

definition count_nonzero :: "real list \<Rightarrow> nat" where
  "count_nonzero xs = length (filter (\<lambda>v. v \<noteq> 0) xs)"

text \<open>\<^verbatim>\<open>M.T\<close>, by value. On an ndarray numpy returns a view: the same buffer read
  with the two indices swapped. Where a callee writes through the view, the caller below
  writes the result back (see \<open>updateSimilarityMatrix\<close>).\<close>

definition np_T :: "ndarray \<Rightarrow> ndarray" where
  "np_T M = map (column M) [0..<snd (shape M)]"

definition set_cell :: "ndarray \<Rightarrow> nat \<Rightarrow> nat \<Rightarrow> real \<Rightarrow> ndarray" where
  "set_cell W r c v = W[r := (W ! r)[c := v]]"

subsection \<open>Sparse matrices\<close>

text \<open>
  A scipy compressed matrix is its list of stored entries (row, column, value) in storage
  order, with its shape and its layout. For a well-formed \<^verbatim>\<open>indptr\<close> the slice
  \<^verbatim>\<open>indptr[c]:indptr[c+1]\<close> of a CSC matrix holds exactly the stored entries of
  column \<open>c\<close> (\<open>sp_col\<close>), and likewise for the rows of a CSR matrix (\<open>sp_row\<close>).
  A stored entry may hold the value 0.
\<close>

datatype layout = CSR | CSC

record spmatrix =
  sp_layout :: layout
  sp_shape :: "nat \<times> nat"
  sp_entries :: "(nat \<times> nat \<times> real) list"

definition sp_row :: "spmatrix \<Rightarrow> nat \<Rightarrow> (nat \<times> real) list" where
  "sp_row X r = map snd (filter (\<lambda>e. fst e = r) (sp_entries X))"

definition sp_col :: "spmatrix \<Rightarrow> nat \<Rightarrow> (nat \<times> real) list" where
  "sp_col X c = map (\<lambda>e. (fst e, snd (snd e))) (filter (\<lambda>e. fst (snd e) = c) (sp_entries X))"

text \<open>\<^verbatim>\<open>tocsr\<close> and \<^verbatim>\<open>tocsc\<close>: scipy's conversions are stable counting sorts of the
  stored entries by row and by column.\<close>

definition tocsr :: "spmatrix \<Rightarrow> spmatrix" where
  "tocsr X = (case sp_layout X of CSR \<Rightarrow> X
     | CSC \<Rightarrow> X\<lparr>sp_layout := CSR, sp_entries := sort_key fst (sp_entries X)\<rparr>)"

definition tocsc :: "spmatrix \<Rightarrow> spmatrix" where
  "tocsc X = (case sp_layout X of CSC \<Rightarrow> X
     | CSR \<Rightarrow> X\<lparr>sp_layout := CSC, sp_entries := sort_key (\<lambda>e. fst (snd e)) (sp_entries X)\<rparr>)"

text \<open>Two invariants: every stored entry lies inside the shape (\<open>sp_ok\<close>), and
  every stored value is \<^verbatim>\<open>True\<close>, the number 1 (\<open>is_mask\<close>).\<close>

definition sp_ok :: "spmatrix \<Rightarrow> bool" where
  "sp_ok X =
     list_all (\<lambda>e. fst e < fst (sp_shape X) \<and> fst (snd e) < snd (sp_shape X)) (sp_entries X)"

definition is_mask :: "spmatrix \<Rightarrow> bool" where
  "is_mask X = list_all (\<lambda>e. snd (snd e) = 1) (sp_entries X)"

text \<open>\<^verbatim>\<open>sps.csr_matrix(W, shape=(n, n))\<close> of a dense \<open>W\<close> stores its non-zero cells,
  row by row.\<close>

definition csr_of_dense :: "ndarray \<Rightarrow> nat \<Rightarrow> spmatrix" where
  "csr_of_dense W n = \<lparr>sp_layout = CSR, sp_shape = (n, n),
     sp_entries = concat (map (\<lambda>r. concat (map (\<lambda>c.
        if W ! r ! c \<noteq> 0 then [(r, c, W ! r ! c)] else []) [0..<n])) [0..<n])\<rparr>"

datatype matrix = Ndarray ndarray | Sparse spmatrix

fun matrix_shape :: "matrix \<Rightarrow> nat \<times> nat" where
  "matrix_shape (Ndarray M) = shape M"
| "matrix_shape (Sparse X) = sp_shape X"

text \<open>
  The value of a cell and the values of a column, for both representations: a cell of a
  sparse matrix is the sum of the values stored for it. A sparse matrix is in canonical
  form when no cell is stored twice (\<open>sp_canonical\<close>).
\<close>

definition sp_get :: "spmatrix \<Rightarrow> nat \<Rightarrow> nat \<Rightarrow> real" where
  "sp_get X r c =
     sum_list (map (\<lambda>e. snd (snd e)) (filter (\<lambda>e. fst e = r \<and> fst (snd e) = c) (sp_entries X)))"

text \<open>The same sum within one column (or row) slice, a list of (index, value).\<close>

definition dense_of :: "(nat \<times> real) list \<Rightarrow> nat \<Rightarrow> real" where
  "dense_of xs r = sum_list (map snd (filter (\<lambda>e. fst e = r) xs))"

fun cell :: "matrix \<Rightarrow> nat \<Rightarrow> nat \<Rightarrow> real" where
  "cell (Ndarray M) r c = M ! r ! c"
| "cell (Sparse X) r c = sp_get X r c"

definition matrix_column :: "matrix \<Rightarrow> nat \<Rightarrow> real list" where
  "matrix_column A c = map (\<lambda>r. cell A r c) [0..<fst (matrix_shape A)]"

definition sp_canonical :: "spmatrix \<Rightarrow> bool" where
  "sp_canonical X = distinct (map (\<lambda>e. (fst e, fst (snd e))) (sp_entries X))"

text \<open>
  \<^verbatim>\<open>sum_duplicates()\<close>: scipy puts the stored entries in index order (by row and,
  within a row, by column for a CSR matrix; by column and then by row for a CSC matrix) and
  replaces the entries stored for one cell by a single entry holding their sum, which is
  stored even when it is 0. \<open>add\<close> is the addition of the matrix's number type.
\<close>

fun merge_duplicates ::
  "(real \<Rightarrow> real \<Rightarrow> real) \<Rightarrow> (nat \<times> nat \<times> real) list \<Rightarrow> (nat \<times> nat \<times> real) list" where
  "merge_duplicates add (e # e' # es) =
     (if fst e = fst e' \<and> fst (snd e) = fst (snd e')
      then merge_duplicates add ((fst e, fst (snd e), add (snd (snd e)) (snd (snd e'))) # es)
      else e # merge_duplicates add (e' # es))"
| "merge_duplicates add es = es"

definition index_order :: "layout \<Rightarrow> (nat \<times> nat \<times> real) list \<Rightarrow> (nat \<times> nat \<times> real) list" where
  "index_order l es = (case l of
       CSR \<Rightarrow> sort_key fst (sort_key (\<lambda>e. fst (snd e)) es)
     | CSC \<Rightarrow> sort_key (\<lambda>e. fst (snd e)) (sort_key fst es))"

definition sum_duplicates :: "(real \<Rightarrow> real \<Rightarrow> real) \<Rightarrow> spmatrix \<Rightarrow> spmatrix" where
  "sum_duplicates add X =
     X\<lparr>sp_entries := merge_duplicates add (index_order (sp_layout X) (sp_entries X))\<rparr>"

subsection \<open>The cast to float32\<close>

text \<open>
  \<open>float32 x\<close> is the binary32 number nearest to \<open>x\<close>, ties going to the even
  significand: 24 significant bits, the exponent of the leading bit between -126 (where the
  subnormal numbers lie as well) and 127. numpy gives an infinity where the rounded value
  lies beyond the largest binary32 number; the reals have none, and every statement below
  that depends on the cast is about values that are binary32 numbers already
  (\<open>sp_float32\<close>).
\<close>

definition round_half_even :: "real \<Rightarrow> int" where
  "round_half_even x =
     (let f = \<lfloor>x\<rfloor>; d = x - of_int f
      in if d < 1 / 2 then f else if 1 / 2 < d then f + 1 else if even f then f else f + 1)"

definition float32_exponent :: "real \<Rightarrow> int" where
  "float32_exponent x =
     (if \<bar>x\<bar> < 1
      then case find (\<lambda>e. 2 powi e \<le> \<bar>x\<bar>) (rev [- 126..- 1]) of
             Some e \<Rightarrow> e
           | None \<Rightarrow> - 126
      else case find (\<lambda>e. \<bar>x\<bar> < 2 powi (e + 1)) [0..127] of
             Some e \<Rightarrow> e
           | None \<Rightarrow> 127)"

definition float32 :: "real \<Rightarrow> real" where
  "float32 x =
     (let ulp = 2 powi (float32_exponent x - 23)
      in of_int (round_half_even (x / ulp)) * ulp)"

definition sp_float32 :: "spmatrix \<Rightarrow> bool" where
  "sp_float32 X = list_all (\<lambda>e. float32 (snd (snd e)) = snd (snd e)) (sp_entries X)"

text \<open>
  \<^verbatim>\<open>X.astype(np.float32)\<close> on a compressed matrix of another number type (float64, the
  type scipy gives a matrix by default): scipy casts the stored values and then sums the
  duplicates of the result, in float32.
\<close>

definition astype_float32 :: "spmatrix \<Rightarrow> spmatrix" where
  "astype_float32 X =
     sum_duplicates (\<lambda>a b. float32 (a + b))
       (X\<lparr>sp_entries := map (\<lambda>e. (fst e, fst (snd e), float32 (snd (snd e)))) (sp_entries X)\<rparr>)"

section \<open>similarityMatrixTopK\<close>

text \<open>\<^verbatim>\<open>check_matrix(X, format='csc', dtype=np.float32)\<close> on a compressed matrix:
  \<^verbatim>\<open>X.tocsc().astype(dtype)\<close>, or \<^verbatim>\<open>X.astype(dtype)\<close> for a matrix that is CSC
  already (where \<open>tocsc\<close> is the identity).\<close>

definition check_matrix_csc :: "spmatrix \<Rightarrow> spmatrix" where
  "check_matrix_csc X = astype_float32 (tocsc X)"

text \<open>The dense branch. \<open>idx_sorted\<close> is \<^verbatim>\<open>np.argsort(item_weights, axis=0)\<close>: row \<open>a\<close>
  holds, for every column, the index of its \<open>a\<close>-th smallest cell.\<close>

definition idx_sorted :: "(real list \<Rightarrow> nat list) \<Rightarrow> ndarray \<Rightarrow> nat \<Rightarrow> nat list list" where
  "idx_sorted srt M nitems =
     map (\<lambda>a. map (\<lambda>c. srt (column M c) ! a) [0..<nitems]) [0..<length M]"

text \<open>\<^verbatim>\<open>W[not_top_k, np.arange(nitems)] = 0.0\<close>\<close>

definition zero_cells :: "nat list list \<Rightarrow> nat \<Rightarrow> ndarray \<Rightarrow> ndarray" where
  "zero_cells not_top_k nitems W =
     fold (\<lambda>idx W. fold (\<lambda>c W. set_cell W (idx ! c) c 0) [0..<nitems] W) not_top_k W"

text \<open>The sparse branch: one pass of the loop over \<^verbatim>\<open>item_idx\<close>, giving the entries
  the pass appends to \<^verbatim>\<open>data\<close> and \<^verbatim>\<open>rows_indices\<close>.\<close>

definition top_k_column :: "(real list \<Rightarrow> nat list) \<Rightarrow> spmatrix \<Rightarrow> int \<Rightarrow> nat \<Rightarrow> (nat \<times> nat \<times> real) list" where
  "top_k_column srt X k item_idx =
     (let column_data = map snd (sp_col X item_idx);
          column_row_index = map fst (sp_col X item_idx);
          nz_data = map snd (filter (\<lambda>e. snd e \<noteq> 0) (zip column_row_index column_data));
          nz_rows = map fst (filter (\<lambda>e. snd e \<noteq> 0) (zip column_row_index column_data));
          top_k_idx = slice_from (srt nz_data) (- k)
      in map (\<lambda>t. (nz_rows ! t, item_idx, nz_data ! t)) top_k_idx)"

text \<open>
  The function returns its result together with the value its argument holds afterwards:
  with \<^verbatim>\<open>inplace=True\<close> the dense branch writes into the caller's array.
\<close>

definition similarityMatrixTopK ::
  "(real list \<Rightarrow> nat list) \<Rightarrow> matrix \<Rightarrow> bool \<Rightarrow> int \<Rightarrow> bool \<Rightarrow> error + (matrix \<times> matrix)" where
  "similarityMatrixTopK srt item_weights forceSparseOutput k0 inplace =
     (if fst (matrix_shape item_weights) \<noteq> snd (matrix_shape item_weights)
      then Inl AssertionError
      else
        let nitems = snd (matrix_shape item_weights);
            k = min k0 (int nitems)
        in case item_weights of
             Ndarray M \<Rightarrow>
               (let not_top_k = slice_to (idx_sorted srt M nitems) (- k);
                    W = zero_cells not_top_k nitems M;
                    after = (if inplace then W else M)
                in if forceSparseOutput
                   then Inr (Sparse (csr_of_dense W nitems), Ndarray after)
                   else Inr (Ndarray W, Ndarray after))
           | Sparse X \<Rightarrow>
               (let Xc = check_matrix_csc X;
                    W_sparse = \<lparr>sp_layout = CSC, sp_shape = (nitems, nitems),
                       sp_entries = concat (map (top_k_column srt Xc k) [0..<nitems])\<rparr>
                in Inr (Sparse (tocsr W_sparse), Sparse X)))"

section \<open>sigmoidFunction\<close>

definition sigmoidFunction :: "real \<Rightarrow> real" where
  "sigmoidFunction x = 1 / (1 + exp (- x))"

section \<open>The object\<close>

text \<open>
  One record holds the attributes of a \<^verbatim>\<open>SLIM_BPR_Python\<close> object (which inherits
  the methods of \<^verbatim>\<open>BPR_Sampling\<close>). \<^verbatim>\<open>URM_train\<close> is a CSR matrix, as the code
  assumes when it reads \<^verbatim>\<open>indptr\<close> and the \<^verbatim>\<open>indices\<close> of a row. The model covers
  objects built with \<^verbatim>\<open>sparse_weights = False\<close>, so \<open>S\<close> is a dense array.
  \<^verbatim>\<open>topK\<close> is \<^verbatim>\<open>False\<close>, \<^verbatim>\<open>True\<close> or an integer.

  \<^verbatim>\<open>W\<close> and \<^verbatim>\<open>W_sparse\<close> are unassigned (\<open>None\<close>) until
  \<open>updateSimilarityMatrix\<close> assigns them; what it assigns is either the view
  \<^verbatim>\<open>self.S.T\<close>, which shares the buffer of \<open>S\<close> and is read through it
  (\<open>View_S_T\<close>), or a matrix of its own (\<open>Owned\<close>). The attributes that only
  \<^verbatim>\<open>fit\<close> assigns (\<open>eligibleUsers\<close> to \<open>learning_rate\<close>) hold placeholders
  in a freshly built object.
\<close>

datatype pyval = PyBool bool | PyInt int

fun int_of :: "pyval \<Rightarrow> int" where
  "int_of (PyBool b) = (if b then 1 else 0)"
| "int_of (PyInt n) = n"

text \<open>\<^verbatim>\<open>v != False\<close> in Python: \<^verbatim>\<open>False\<close> equals the integer 0.\<close>

definition ne_False :: "pyval \<Rightarrow> bool" where
  "ne_False v = (int_of v \<noteq> 0)"

datatype exported = View_S_T | Owned matrix

record slim =
  URM_train :: spmatrix
  n_users :: nat
  n_items :: nat
  sparse_weights :: bool
  positive_threshold :: real
  URM_mask :: spmatrix
  S :: ndarray
  eligibleUsers :: "nat list"
  userSeenItems :: "nat \<rightharpoonup> nat list"
  topK :: pyval
  batch_size :: int
  lambda_i :: real
  lambda_j :: real
  learning_rate :: real
  W_sparse :: "exported option"
  W :: "exported option"

text \<open>\<^verbatim>\<open>URM_mask.data = URM_mask.data >= positive_threshold\<close> followed by
  \<^verbatim>\<open>eliminate_zeros()\<close>: the stored entries at or above the threshold, with the
  value \<^verbatim>\<open>True\<close> (1).\<close>

definition mask_of :: "spmatrix \<Rightarrow> real \<Rightarrow> spmatrix" where
  "mask_of X t = X\<lparr>sp_entries :=
     filter (\<lambda>e. snd (snd e) \<noteq> 0)
       (map (\<lambda>e. (fst e, fst (snd e), if t \<le> snd (snd e) then 1 else 0)) (sp_entries X))\<rparr>"

text \<open>\<^verbatim>\<open>SLIM_BPR_Python.__init__\<close> with \<^verbatim>\<open>sparse_weights = False\<close>.\<close>

definition init :: "spmatrix \<Rightarrow> real \<Rightarrow> slim" where
  "init URM t =
     \<lparr>URM_train = URM, n_users = fst (sp_shape URM), n_items = snd (sp_shape URM),
      sparse_weights = False, positive_threshold = t, URM_mask = mask_of URM t,
      S = replicate (snd (sp_shape URM)) (replicate (snd (sp_shape URM)) 0),
      eligibleUsers = [], userSeenItems = Map.empty, topK = PyBool False, batch_size = 0,
      lambda_i = 0, lambda_j = 0, learning_rate = 0, W_sparse = None, W = None\<rparr>"

section \<open>BPR_Sampling\<close>

text \<open>
  The random source is the list of raw draws still to come. \<^verbatim>\<open>np.random.randint(low,
  high)\<close> raises \<^verbatim>\<open>ValueError\<close> on an empty range and otherwise maps the next raw draw
  into \<open>[low, high)\<close>; every value of the range is the image of some draw. A sampler
  returns \<open>None\<close> when the draws end before it has returned: the rejection loops of the
  source have no bound of their own.
\<close>

type_synonym rng = "nat list"

definition bind_r :: "(error + 'a) option \<Rightarrow> ('a \<Rightarrow> (error + 'b) option) \<Rightarrow> (error + 'b) option" where
  "bind_r m f = (case m of None \<Rightarrow> None | Some (Inl e) \<Rightarrow> Some (Inl e) | Some (Inr x) \<Rightarrow> f x)"

definition bind_e :: "error + 'a \<Rightarrow> ('a \<Rightarrow> error + 'b) \<Rightarrow> error + 'b" where
  "bind_e m f = (case m of Inl e \<Rightarrow> Inl e | Inr x \<Rightarrow> f x)"

definition randint :: "nat \<Rightarrow> nat \<Rightarrow> rng \<Rightarrow> (error + nat \<times> rng) option" where
  "randint low high g =
     (if high \<le> low then Some (Inl ValueError)
      else case g of [] \<Rightarrow> None | r # g' \<Rightarrow> Some (Inr (low + r mod (high - low), g')))"

text \<open>\<^verbatim>\<open>np.random.choice(a)\<close>: one element of a non-empty array.\<close>

definition choice :: "nat list \<Rightarrow> rng \<Rightarrow> (error + nat \<times> rng) option" where
  "choice a g = bind_r (randint 0 (length a) g) (\<lambda>(k, g'). Some (Inr (a ! k, g')))"

text \<open>\<^verbatim>\<open>np.random.choice(a, size=n)\<close>: a negative size is an error, and so is an
  empty array unless no sample is taken.\<close>

fun choices :: "nat list \<Rightarrow> nat \<Rightarrow> rng \<Rightarrow> (error + nat list \<times> rng) option" where
  "choices a 0 g = Some (Inr ([], g))"
| "choices a (Suc n) g =
     bind_r (choice a g) (\<lambda>(x, g'). bind_r (choices a n g') (\<lambda>(xs, g''). Some (Inr (x # xs, g''))))"

definition choice_size :: "nat list \<Rightarrow> int \<Rightarrow> rng \<Rightarrow> (error + nat list \<times> rng) option" where
  "choice_size a n g = (if n < 0 then Some (Inl ValueError) else choices a (nat n) g)"

text \<open>A row of a CSR matrix, \<^verbatim>\<open>X[user_id]\<close>; an index beyond the shape is an
  \<^verbatim>\<open>IndexError\<close>.\<close>

definition getrow :: "spmatrix \<Rightarrow> nat \<Rightarrow> error + (nat \<times> real) list" where
  "getrow X r = (if r < fst (sp_shape X) then Inr (sp_row X r) else Inl IndexError)"

text \<open>\<^verbatim>\<open>sampleUser\<close>: rejection sampling of a user with at least one and not all
  items stored.\<close>

fun sampleUser :: "slim \<Rightarrow> rng \<Rightarrow> (error + nat \<times> rng) option" where
  "sampleUser self [] = (if n_users self = 0 then Some (Inl ValueError) else None)"
| "sampleUser self (r # g) =
     (if n_users self = 0 then Some (Inl ValueError)
      else let user_id = r mod n_users self in
        case getrow (URM_train self) user_id of
          Inl e \<Rightarrow> Some (Inl e)
        | Inr row \<Rightarrow>
            let numSeenItems = length row in
            if 0 < numSeenItems \<and> numSeenItems < n_items self then Some (Inr (user_id, g))
            else sampleUser self g)"

text \<open>The loop \<^verbatim>\<open>while True: neg_item_id = randint(0, n_items); if neg_item_id not in
  seen: return\<close>, shared by \<^verbatim>\<open>sampleItemPair\<close> and \<^verbatim>\<open>sampleBatch\<close>.\<close>

fun sample_negative :: "nat \<Rightarrow> nat list \<Rightarrow> rng \<Rightarrow> (error + nat \<times> rng) option" where
  "sample_negative n seen [] = (if n = 0 then Some (Inl ValueError) else None)"
| "sample_negative n seen (r # g) =
     (if n = 0 then Some (Inl ValueError)
      else let neg_item_id = r mod n in
        if neg_item_id \<notin> set seen then Some (Inr (neg_item_id, g))
        else sample_negative n seen g)"

definition sampleItemPair :: "slim \<Rightarrow> nat \<Rightarrow> rng \<Rightarrow> (error + (nat \<times> nat) \<times> rng) option" where
  "sampleItemPair self user_id g =
     (case getrow (URM_train self) user_id of
        Inl e \<Rightarrow> Some (Inl e)
      | Inr row \<Rightarrow>
          let seen = map fst row in
          bind_r (choice seen g) (\<lambda>(pos_item_id, g').
          bind_r (sample_negative (n_items self) seen g') (\<lambda>(neg_item_id, g'').
            Some (Inr ((pos_item_id, neg_item_id), g'')))))"

definition sampleTriple :: "slim \<Rightarrow> rng \<Rightarrow> (error + (nat \<times> nat \<times> nat) \<times> rng) option" where
  "sampleTriple self g =
     bind_r (sampleUser self g) (\<lambda>(user_id, g').
     bind_r (sampleItemPair self user_id g') (\<lambda>((pos_item_id, neg_item_id), g'').
       Some (Inr ((user_id, pos_item_id, neg_item_id), g''))))"

text \<open>
  \<^verbatim>\<open>URM_train.multiply(URM_train > positive_threshold)\<close>: the comparison marks the
  cells whose value exceeds the threshold, and the element-wise product stores the
  non-zero products. Both work on cells, the duplicates summed, so the result holds the
  entries of \<^verbatim>\<open>URM_train\<close>, its duplicates summed, that exceed the threshold and are
  not zero.
\<close>

definition positive_part :: "spmatrix \<Rightarrow> real \<Rightarrow> spmatrix" where
  "positive_part X t =
     (let Xs = sum_duplicates (+) X
      in Xs\<lparr>sp_entries := filter (\<lambda>e. t < snd (snd e) \<and> snd (snd e) \<noteq> 0) (sp_entries Xs)\<rparr>)"

text \<open>
  For a threshold that is not negative scipy compares the stored values with the scalar,
  after \<^verbatim>\<open>self.sum_duplicates()\<close>, which rewrites \<^verbatim>\<open>URM_train\<close> itself; for a
  negative threshold it builds the result from a dense array of the threshold and leaves
  \<^verbatim>\<open>URM_train\<close> as it is.
\<close>

definition initializeFastSampling :: "slim \<Rightarrow> real \<Rightarrow> error + slim" where
  "initializeFastSampling self threshold =
     (let URM_train_positive = positive_part (URM_train self) threshold;
          URM_train_after = (if threshold < 0 then URM_train self
                             else sum_duplicates (+) (URM_train self)) in
      fold (\<lambda>user_id acc. bind_e acc (\<lambda>s.
              bind_e (getrow URM_train_positive user_id) (\<lambda>row.
                if 0 < length row
                then Inr (s\<lparr>eligibleUsers := eligibleUsers s @ [user_id],
                            userSeenItems := (userSeenItems s)(user_id \<mapsto> map fst row)\<rparr>)
                else Inr s)))
        [0..<n_users self]
        (Inr (self\<lparr>URM_train := URM_train_after, eligibleUsers := [],
                   userSeenItems := Map.empty\<rparr>)))"

text \<open>The loop of \<^verbatim>\<open>sampleBatch\<close> over the sampled users.\<close>

fun sample_items :: "slim \<Rightarrow> nat list \<Rightarrow> rng \<Rightarrow> (error + (nat list \<times> nat list) \<times> rng) option" where
  "sample_items self [] g = Some (Inr (([], []), g))"
| "sample_items self (user_id # users) g =
     (case userSeenItems self user_id of
        None \<Rightarrow> Some (Inl KeyError)
      | Some seen \<Rightarrow>
          bind_r (choice seen g) (\<lambda>(pos_item_id, g1).
          bind_r (sample_negative (n_items self) seen g1) (\<lambda>(neg_item_id, g2).
          bind_r (sample_items self users g2) (\<lambda>((ps, ns), g3).
            Some (Inr ((pos_item_id # ps, neg_item_id # ns), g3))))))"

definition sampleBatch :: "slim \<Rightarrow> rng \<Rightarrow> (error + (nat list \<times> nat list \<times> nat list) \<times> rng) option" where
  "sampleBatch self g =
     bind_r (choice_size (eligibleUsers self) (batch_size self) g) (\<lambda>(user_id_list, g').
     bind_r (sample_items self user_id_list g') (\<lambda>((pos_item_id_list, neg_item_id_list), g'').
       Some (Inr ((user_id_list, pos_item_id_list, neg_item_id_list), g''))))"

section \<open>SLIM_BPR_Python\<close>

subsection \<open>updateSimilarityMatrix\<close>

text \<open>
  With \<^verbatim>\<open>topK\<close> set, the method hands the view \<^verbatim>\<open>self.S.T\<close> to
  \<open>similarityMatrixTopK\<close> with the default \<^verbatim>\<open>inplace=True\<close>: what the callee writes
  into its argument is written into the buffer of \<open>S\<close>, so \<open>S\<close> afterwards is the
  transpose of the argument's final value. (The second case of the inner \<open>case\<close> cannot
  occur: a dense argument stays dense.)
\<close>

definition updateSimilarityMatrix :: "(real list \<Rightarrow> nat list) \<Rightarrow> slim \<Rightarrow> error + slim" where
  "updateSimilarityMatrix srt self =
     (if ne_False (topK self)
      then bind_e (similarityMatrixTopK srt (Ndarray (np_T (S self))) True (int_of (topK self)) True)
             (\<lambda>(res, arg). case arg of
                 Ndarray A \<Rightarrow> Inr (self\<lparr>sparse_weights := True, S := np_T A,
                                          W_sparse := Some (Owned res)\<rparr>)
               | Sparse _ \<Rightarrow> Inr (self\<lparr>sparse_weights := True, W_sparse := Some (Owned res)\<rparr>))
      else if sparse_weights self then Inr (self\<lparr>W_sparse := Some View_S_T\<rparr>)
      else Inr (self\<lparr>W := Some View_S_T\<rparr>))"

subsection \<open>Indexing a dense array with index arrays\<close>

text \<open>Two one-dimensional index arrays are broadcast against each other; numpy raises
  \<^verbatim>\<open>IndexError\<close> when their lengths differ and neither is 1.\<close>

definition broadcast2 :: "'a list \<Rightarrow> 'b list \<Rightarrow> error + ('a \<times> 'b) list" where
  "broadcast2 xs ys =
     (if length xs = length ys then Inr (zip xs ys)
      else if length xs = 1 then Inr (map (\<lambda>y. (hd xs, y)) ys)
      else if length ys = 1 then Inr (map (\<lambda>x. (x, hd ys)) xs)
      else Inl IndexError)"

definition in_range :: "ndarray \<Rightarrow> nat \<times> nat \<Rightarrow> bool" where
  "in_range A p = (fst p < length A \<and> snd p < length (A ! fst p))"

text \<open>Reading \<^verbatim>\<open>A[rows, cols]\<close> at a list of cells, and writing one value per cell,
  in order.\<close>

definition get_cells :: "ndarray \<Rightarrow> (nat \<times> nat) list \<Rightarrow> error + real list" where
  "get_cells A ps =
     (if list_all (in_range A) ps then Inr (map (\<lambda>p. A ! fst p ! snd p) ps) else Inl IndexError)"

definition set_cells :: "ndarray \<Rightarrow> (nat \<times> nat) list \<Rightarrow> real list \<Rightarrow> ndarray" where
  "set_cells A ps vs = fold (\<lambda>(p, v) B. set_cell B (fst p) (snd p) v) (zip ps vs) A"

text \<open>\<^verbatim>\<open>A[rows, cols] += c\<close> and \<^verbatim>\<open>A[rows, cols] -= c\<close>: numpy reads the cells, adds
  the scalar to the values read and writes them back.\<close>

definition iadd_cells :: "ndarray \<Rightarrow> nat list \<Rightarrow> nat list \<Rightarrow> real \<Rightarrow> error + ndarray" where
  "iadd_cells A rows cols c =
     bind_e (broadcast2 rows cols) (\<lambda>ps.
     bind_e (get_cells A ps) (\<lambda>vs. Inr (set_cells A ps (map (\<lambda>v. v + c) vs))))"

definition isub_cells :: "ndarray \<Rightarrow> nat list \<Rightarrow> nat list \<Rightarrow> real \<Rightarrow> error + ndarray" where
  "isub_cells A rows cols c =
     bind_e (broadcast2 rows cols) (\<lambda>ps.
     bind_e (get_cells A ps) (\<lambda>vs. Inr (set_cells A ps (map (\<lambda>v. v - c) vs))))"

text \<open>\<^verbatim>\<open>A[idx, idx] = 0\<close>\<close>

definition zero_diag :: "ndarray \<Rightarrow> nat list \<Rightarrow> error + ndarray" where
  "zero_diag A idx =
     (let ps = zip idx idx in
      if list_all (in_range A) ps then Inr (set_cells A ps (map (\<lambda>p. 0) ps)) else Inl IndexError)"

text \<open>Subtraction of one-dimensional arrays, with broadcasting.\<close>

definition sub1 :: "real list \<Rightarrow> real list \<Rightarrow> error + real list" where
  "sub1 xs ys =
     (if length xs = length ys then Inr (map2 (\<lambda>x y. x - y) xs ys)
      else if length xs = 1 then Inr (map (\<lambda>y. hd xs - y) ys)
      else if length ys = 1 then Inr (map (\<lambda>x. x - hd ys) xs)
      else Inl ValueError)"

text \<open>Whole rows: \<^verbatim>\<open>A[idx]\<close>, the assignment \<^verbatim>\<open>A[idx] = rows\<close>, and the
  subtraction of two stacks of rows of the same array, broadcast along the first axis.\<close>

definition get_rows :: "ndarray \<Rightarrow> nat list \<Rightarrow> error + ndarray" where
  "get_rows A idx =
     (if list_all (\<lambda>r. r < length A) idx then Inr (map (\<lambda>r. A ! r) idx) else Inl IndexError)"

definition set_rows :: "ndarray \<Rightarrow> nat list \<Rightarrow> ndarray \<Rightarrow> ndarray" where
  "set_rows A idx rows = fold (\<lambda>(r, row) B. B[r := row]) (zip idx rows) A"

definition sub2 :: "ndarray \<Rightarrow> ndarray \<Rightarrow> error + ndarray" where
  "sub2 A B =
     (if length A = length B then Inr (map2 (\<lambda>a b. map2 (\<lambda>x y. x - y) a b) A B)
      else if length A = 1 then Inr (map (\<lambda>b. map2 (\<lambda>x y. x - y) (hd A) b) B)
      else if length B = 1 then Inr (map (\<lambda>a. map2 (\<lambda>x y. x - y) a (hd B)) A)
      else Inl ValueError)"

text \<open>\<^verbatim>\<open>A[idx] += vec\<close> and \<^verbatim>\<open>A[idx] -= vec\<close>: the rows are read, the vector is added
  to each, and the sums are written back row by row. Where the model calls them the
  vector is as long as a row.\<close>

definition iadd_rows :: "ndarray \<Rightarrow> nat list \<Rightarrow> real list \<Rightarrow> error + ndarray" where
  "iadd_rows A idx vec =
     bind_e (get_rows A idx) (\<lambda>rows.
       Inr (set_rows A idx (map (\<lambda>row. map2 (\<lambda>x y. x + y) row vec) rows)))"

definition isub_rows :: "ndarray \<Rightarrow> nat list \<Rightarrow> real list \<Rightarrow> error + ndarray" where
  "isub_rows A idx vec =
     bind_e (get_rows A idx) (\<lambda>rows.
       Inr (set_rows A idx (map (\<lambda>row. map2 (\<lambda>x y. x - y) row vec) rows)))"

subsection \<open>updateWeightsBatch\<close>

text \<open>\<^verbatim>\<open>URM_mask[u,:].dot(x_uij.T).diagonal()\<close>: entry \<open>row\<close> of the diagonal is the
  product of the mask row of user \<open>u[row]\<close> with row \<open>row\<close> of \<open>x_uij\<close>. \<open>ncols\<close>
  is the number of columns of \<open>x_uij\<close>.\<close>

definition mask_dot_diagonal :: "spmatrix \<Rightarrow> nat list \<Rightarrow> ndarray \<Rightarrow> nat \<Rightarrow> error + real list" where
  "mask_dot_diagonal Mk u X ncols =
     (if \<not> list_all (\<lambda>user. user < fst (sp_shape Mk)) u then Inl IndexError
      else if snd (sp_shape Mk) \<noteq> ncols then Inl ValueError
      else Inr (map2 (\<lambda>user xrow. sum_list (map (\<lambda>e. snd e * xrow ! fst e) (sp_row Mk user))) u X))"

text \<open>\<^verbatim>\<open>np.array(URM_mask[u, :].sum(axis=0) > 0).ravel()\<close>\<close>

definition itemsToUpdate :: "spmatrix \<Rightarrow> nat list \<Rightarrow> bool list" where
  "itemsToUpdate Mk u =
     map (\<lambda>c. 0 < sum_list (map (\<lambda>user.
                  sum_list (map snd (filter (\<lambda>e. fst e = c) (sp_row Mk user)))) u))
       [0..<snd (sp_shape Mk)]"

text \<open>The product of a scalar with a boolean vector, as in
  \<^verbatim>\<open>learning_rate * gradient * itemsToUpdate\<close>.\<close>

definition scale_mask :: "real \<Rightarrow> bool list \<Rightarrow> real list" where
  "scale_mask x bs = map (\<lambda>b. x * (if b then 1 else 0)) bs"

text \<open>
  The method takes the three index-aligned sequences of a batch. With
  \<^verbatim>\<open>batch_size = 0\<close> numpy's division in the second branch gives NaN or infinity,
  which the model does not have; \<open>epochIteration\<close> never reaches the method with that
  value.
\<close>

definition updateWeightsBatch :: "slim \<Rightarrow> nat list \<Rightarrow> nat list \<Rightarrow> nat list \<Rightarrow> error + slim" where
  "updateWeightsBatch self u i j =
     (if batch_size self = 1 then
        (case u of
           [] \<Rightarrow> Inl IndexError
         | u0 # _ \<Rightarrow>
           (case userSeenItems self u0 of
              None \<Rightarrow> Inl KeyError
            | Some seenItems \<Rightarrow>
                bind_e (broadcast2 i seenItems) (\<lambda>cells_i.
                bind_e (get_cells (S self) cells_i) (\<lambda>x_ui.
                bind_e (broadcast2 j seenItems) (\<lambda>cells_j.
                bind_e (get_cells (S self) cells_j) (\<lambda>x_uj.
                bind_e (sub1 x_ui x_uj) (\<lambda>x_uij.
                  let gradient = 1 / (1 + exp (sum_list x_uij)) in
                  bind_e (iadd_cells (S self) i seenItems (learning_rate self * gradient)) (\<lambda>S1.
                  bind_e (zero_diag S1 i) (\<lambda>S2.
                  bind_e (isub_cells S2 j seenItems (learning_rate self * gradient)) (\<lambda>S3.
                  bind_e (zero_diag S3 j) (\<lambda>S4.
                    Inr (self\<lparr>S := S4\<rparr>))))))))))))
      else
        bind_e (get_rows (S self) i) (\<lambda>x_ui.
        bind_e (get_rows (S self) j) (\<lambda>x_uj.
        bind_e (sub2 x_ui x_uj) (\<lambda>x_diff.
        bind_e (mask_dot_diagonal (URM_mask self) u x_diff (snd (shape (S self)))) (\<lambda>x_uij.
          let gradient = sum_list (map (\<lambda>x. 1 / (1 + exp x)) x_uij) / real_of_int (batch_size self);
              step = scale_mask (learning_rate self * gradient) (itemsToUpdate (URM_mask self) u)
          in
          bind_e (iadd_rows (S self) i step) (\<lambda>S1.
          bind_e (zero_diag S1 i) (\<lambda>S2.
          bind_e (isub_rows S2 j step) (\<lambda>S3.
          bind_e (zero_diag S3 j) (\<lambda>S4.
            Inr (self\<lparr>S := S4\<rparr>))))))))))"

subsection \<open>epochIteration and fit\<close>

text \<open>\<^verbatim>\<open>int(a / b)\<close>: Python's true division followed by truncation towards zero.\<close>

definition int_quotient :: "int \<Rightarrow> int \<Rightarrow> int" where
  "int_quotient a b = sgn a * sgn b * (\<bar>a\<bar> div \<bar>b\<bar>)"

fun lift_e :: "error + 'a \<Rightarrow> 'b \<Rightarrow> (error + 'a \<times> 'b) option" where
  "lift_e (Inl e) g = Some (Inl e)"
| "lift_e (Inr x) g = Some (Inr (x, g))"

text \<open>The loop over the batches of one epoch.\<close>

fun batches :: "nat \<Rightarrow> slim \<Rightarrow> rng \<Rightarrow> (error + slim \<times> rng) option" where
  "batches 0 self g = Some (Inr (self, g))"
| "batches (Suc m) self g =
     bind_r (sampleBatch self g) (\<lambda>((sgd_users, sgd_pos_items, sgd_neg_items), g1).
     bind_r (lift_e (updateWeightsBatch self sgd_users sgd_pos_items sgd_neg_items) g1) (\<lambda>(self1, g2).
       batches m self1 g2))"

definition epochIteration :: "(real list \<Rightarrow> nat list) \<Rightarrow> slim \<Rightarrow> rng \<Rightarrow> (error + slim \<times> rng) option" where
  "epochIteration srt self g =
     (let numPositiveIteractions = int (length (sp_entries (URM_mask self))) in
      if batch_size self = 0 then Some (Inl ZeroDivisionError)
      else
        let totalNumberOfBatch = int_quotient numPositiveIteractions (batch_size self) + 1 in
        bind_r (batches (nat totalNumberOfBatch) self g) (\<lambda>(self1, g1).
          lift_e (bind_e (zero_diag (S self1) [0..<n_items self1]) (\<lambda>S2.
                    updateSimilarityMatrix srt (self1\<lparr>S := S2\<rparr>))) g1))"

text \<open>The loop of \<^verbatim>\<open>fit_alreadyInitialized\<close> over the epochs, without a test matrix
  (\<^verbatim>\<open>URM_test=None\<close>): the evaluation it would run is not part of this file.\<close>

fun epochs_loop :: "(real list \<Rightarrow> nat list) \<Rightarrow> nat list \<Rightarrow> slim \<Rightarrow> rng \<Rightarrow> (error + slim \<times> rng) option" where
  "epochs_loop srt [] self g = Some (Inr (self, g))"
| "epochs_loop srt (currentEpoch # rest) self g =
     bind_r (if 0 < currentEpoch
             then (if 0 < batch_size self then epochIteration srt self g else Some (Inr (self, g)))
             else lift_e (updateSimilarityMatrix srt self) g)
       (\<lambda>(self1, g1). epochs_loop srt rest self1 g1)"

definition fit_alreadyInitialized ::
  "(real list \<Rightarrow> nat list) \<Rightarrow> slim \<Rightarrow> int \<Rightarrow> int \<Rightarrow> real \<Rightarrow> real \<Rightarrow> real \<Rightarrow> pyval \<Rightarrow> rng
     \<Rightarrow> (error + slim \<times> rng) option" where
  "fit_alreadyInitialized srt self epochs bsize lam_i lam_j lrate topk g =
     (if ne_False topk \<and> int_of topk < 1 then Some (Inl ValueError)
      else epochs_loop srt [0..<nat epochs]
             (self\<lparr>topK := topk, batch_size := bsize, lambda_i := lam_i, lambda_j := lam_j,
                    learning_rate := lrate\<rparr>) g)"

definition fit ::
  "(real list \<Rightarrow> nat list) \<Rightarrow> slim \<Rightarrow> int \<Rightarrow> int \<Rightarrow> real \<Rightarrow> real \<Rightarrow> real \<Rightarrow> pyval \<Rightarrow> rng
     \<Rightarrow> (error + slim \<times> rng) option" where
  "fit srt self epochs bsize lam_i lam_j lrate topk g =
     (case initializeFastSampling self (positive_threshold self) of
        Inl e \<Rightarrow> Some (Inl e)
      | Inr self1 \<Rightarrow> fit_alreadyInitialized srt self1 epochs bsize lam_i lam_j lrate topk g)"

subsection \<open>recommend\<close>

text \<open>A score is a real number or minus infinity (\<open>None\<close>, below every number in the
  order of \<open>option\<close>).\<close>

type_synonym score = "real option"

text \<open>\<^verbatim>\<open>user_profile.dot(W_sparse).toarray().ravel()\<close>\<close>

definition row_dot :: "(nat \<times> real) list \<Rightarrow> spmatrix \<Rightarrow> real list" where
  "row_dot row X =
     map (\<lambda>c. sum_list (map (\<lambda>e. snd e * sp_get X (fst e) c) row)) [0..<snd (sp_shape X)]"

definition filter_seen :: "slim \<Rightarrow> nat \<Rightarrow> score list \<Rightarrow> error + score list" where
  "filter_seen self user_id scores =
     (if \<not> user_id < fst (sp_shape (URM_train self)) then Inl IndexError
      else
        let user_profile = map fst (sp_row (URM_train self) user_id) in
        if list_all (\<lambda>item. item < length scores) user_profile
        then Inr (fold (\<lambda>item sc. sc[item := None]) user_profile scores)
        else Inl IndexError)"

text \<open>
  \<^verbatim>\<open>at\<close> (here \<open>at_n\<close>) is an integer or \<^verbatim>\<open>None\<close>. The scores are computed from
  \<^verbatim>\<open>W_sparse\<close> alone: the attribute must have been assigned, and the product with a
  dense array has no \<^verbatim>\<open>toarray\<close>.
\<close>

definition recommend ::
  "(score list \<Rightarrow> nat list) \<Rightarrow> slim \<Rightarrow> nat \<Rightarrow> int option \<Rightarrow> bool \<Rightarrow> error + nat list" where
  "recommend srt self user_id at_n exclude_seen =
     bind_e (getrow (URM_train self) user_id) (\<lambda>user_profile.
       case W_sparse self of
         None \<Rightarrow> Inl AttributeError
       | Some View_S_T \<Rightarrow> Inl AttributeError
       | Some (Owned (Ndarray A)) \<Rightarrow> Inl AttributeError
       | Some (Owned (Sparse X)) \<Rightarrow>
           if snd (sp_shape (URM_train self)) \<noteq> fst (sp_shape X) then Inl ValueError
           else
             bind_e (if exclude_seen
                     then filter_seen self user_id (map Some (row_dot user_profile X))
                     else Inr (map Some (row_dot user_profile X)))
               (\<lambda>scores.
                  let ranking = rev (srt scores) in
                  Inr (case at_n of None \<Rightarrow> ranking | Some a \<Rightarrow> slice_to ranking a)))"

section \<open>A small object for concrete runs\<close>

text \<open>Three users and three items; user 0 rated item 0 with 5 and item 1 with 3, user 1
  rated item 2 with 4, and user 2 rated item 1 with 3. \<open>example_object\<close> is the object
  after \<^verbatim>\<open>__init__\<close> with threshold 3 and the fast-sampling initialisation (lemma
  \<open>example_fast_sampling\<close>), with a batch size and a learning rate assigned.\<close>

definition example_URM :: spmatrix where
  "example_URM = \<lparr>sp_layout = CSR, sp_shape = (3, 3),
     sp_entries = [(0, 0, 5), (0, 1, 3), (1, 2, 4), (2, 1, 3)]\<rparr>"

definition example_object :: slim where
  "example_object =
     \<lparr>URM_train = example_URM, n_users = 3, n_items = 3, sparse_weights = False,
      positive_threshold = 3, URM_mask = mask_of example_URM 3,
      S = [[0, 0, 0], [0, 0, 0], [0, 0, 0]],
      eligibleUsers = [0, 1], userSeenItems = [0 \<mapsto> [0], 1 \<mapsto> [2]],
      topK = PyBool False, batch_size = 2, lambda_i = 0, lambda_j = 0, learning_rate = 1,
      W_sparse = None, W = None\<rparr>"

section \<open>Properties of similarityMatrixTopK\<close>

lemma slice_to_zero: "slice_to xs 0 = []"
  by (simp add: slice_to_def)

lemma zero_cells_Nil: "zero_cells [] n A = A"
  by (simp add: zero_cells_def)

text \<open>
  C10. For a square dense matrix, \<open>k = 0\<close> without the sparse output returns the matrix
  itself: the slice \<^verbatim>\<open>idx_sorted[:-0, :]\<close> is empty, no cell is set to zero and no
  error is raised.
\<close>

theorem topK_zero_keeps_matrix:
  "is_matrix n n M \<Longrightarrow>
     similarityMatrixTopK srt (Ndarray M) False 0 inplace = Inr (Ndarray M, Ndarray M)"
  by (cases M)
     (auto simp: similarityMatrixTopK_def is_matrix_def shape_def slice_to_zero
        zero_cells_Nil Let_def)

theorem topK_zero_keeps_matrix_witness:
  "is_matrix 2 2 [[0, 5], [-1, 0]] \<and>
   similarityMatrixTopK argsort_stable (Ndarray [[0, 5], [-1, 0]]) False 0 True
     = Inr (Ndarray [[0, 5], [-1, 0]], Ndarray [[0, 5], [-1, 0]])"
  using topK_zero_keeps_matrix [of 2 "[[0, 5], [-1, 0]]" argsort_stable True]
  by (simp add: is_matrix_def)


section \<open>Results and errors\<close>

lemma bind_e_Inr_iff: "bind_e m f = Inr y \<longleftrightarrow> (\<exists>x. m = Inr x \<and> f x = Inr y)"
  by (cases m) (auto simp: bind_e_def)

lemma bind_r_Inr_iff:
  "bind_r m f = Some (Inr y) \<longleftrightarrow> (\<exists>x. m = Some (Inr x) \<and> f x = Some (Inr y))"
  by (auto simp: bind_r_def split: option.splits sum.splits)

lemma lift_e_Inr_iff: "lift_e m g = Some (Inr (x, g')) \<longleftrightarrow> m = Inr x \<and> g' = g"
  by (cases m) auto

section \<open>The samplers\<close>

lemma randint_Inr:
  assumes "randint low high g = Some (Inr (k, g'))"
  shows "low \<le> k \<and> k < high \<and> length g' < length g"
proof (cases g)
  case Nil
  with assms show ?thesis by (simp add: randint_def split: if_splits)
next
  case (Cons r rest)
  show ?thesis
  proof (cases "high \<le> low")
    case True
    with assms show ?thesis by (simp add: randint_def)
  next
    case False
    then have "low + r mod (high - low) < high"
      using mod_less_divisor [of "high - low" r] by linarith
    with False Cons assms show ?thesis by (auto simp: randint_def)
  qed
qed

lemma choice_Inr: "choice a g = Some (Inr (x, g')) \<Longrightarrow> x \<in> set a"
  by (auto simp: choice_def bind_r_Inr_iff dest!: randint_Inr)

lemma sample_negative_Inr:
  "sample_negative n seen g = Some (Inr (neg, g')) \<Longrightarrow> neg \<notin> set seen \<and> neg < n"
  by (induction g) (auto simp: Let_def split: if_splits)

lemma sampleItemPair_Inr:
  assumes "sampleItemPair self user_id g = Some (Inr ((pos, neg), g'))"
  shows "user_id < fst (sp_shape (URM_train self)) \<and>
         pos \<in> fst ` set (sp_row (URM_train self) user_id) \<and>
         neg \<notin> fst ` set (sp_row (URM_train self) user_id) \<and> neg < n_items self"
proof -
  let ?seen = "map fst (sp_row (URM_train self) user_id)"
  from assms have inside: "user_id < fst (sp_shape (URM_train self))"
    by (auto simp: sampleItemPair_def getrow_def split: if_splits)
  with assms obtain g1 where
    pos: "choice ?seen g = Some (Inr (pos, g1))"
    and neg: "sample_negative (n_items self) ?seen g1 = Some (Inr (neg, g'))"
    by (auto simp: sampleItemPair_def getrow_def bind_r_Inr_iff Let_def)
  from choice_Inr [OF pos] sample_negative_Inr [OF neg] inside show ?thesis
    by simp
qed

lemma sampleUser_Inr:
  "sampleUser self g = Some (Inr (user_id, g')) \<Longrightarrow>
     user_id < n_users self \<and> sp_row (URM_train self) user_id \<noteq> [] \<and>
     length (sp_row (URM_train self) user_id) < n_items self"
  by (induction g) (auto simp: Let_def getrow_def split: if_splits sum.splits)

lemma sampleTriple_Inr:
  assumes "sampleTriple self g = Some (Inr ((user_id, pos, neg), g'))"
  shows "user_id < n_users self \<and>
         pos \<in> fst ` set (sp_row (URM_train self) user_id) \<and>
         neg \<notin> fst ` set (sp_row (URM_train self) user_id) \<and> neg < n_items self"
  using assms
  by (auto simp: sampleTriple_def bind_r_Inr_iff dest!: sampleUser_Inr sampleItemPair_Inr)

lemma choices_Inr:
  "choices a n g = Some (Inr (xs, g')) \<Longrightarrow> length xs = n \<and> set xs \<subseteq> set a"
proof (induction n arbitrary: g xs)
  case 0
  then show ?case by simp
next
  case (Suc n)
  from Suc.prems obtain x g1 xs' where
    x: "choice a g = Some (Inr (x, g1))"
    and rest: "choices a n g1 = Some (Inr (xs', g'))"
    and eq: "xs = x # xs'"
    by (auto simp: bind_r_Inr_iff)
  from Suc.IH [OF rest] choice_Inr [OF x] eq show ?case by simp
qed

lemma sample_items_Inr:
  "sample_items self users g = Some (Inr ((ps, ns), g')) \<Longrightarrow>
     length ps = length users \<and> length ns = length users \<and>
     (\<forall>k<length users. \<exists>seen. userSeenItems self (users ! k) = Some seen \<and>
        ps ! k \<in> set seen \<and> ns ! k \<notin> set seen \<and> ns ! k < n_items self)"
proof (induction users arbitrary: g ps ns)
  case Nil
  then show ?case by simp
next
  case (Cons user_id users)
  from Cons.prems obtain seen pos g1 neg g2 ps' ns' where
    seen: "userSeenItems self user_id = Some seen"
    and pos: "choice seen g = Some (Inr (pos, g1))"
    and neg: "sample_negative (n_items self) seen g1 = Some (Inr (neg, g2))"
    and rest: "sample_items self users g2 = Some (Inr ((ps', ns'), g'))"
    and eq: "ps = pos # ps'" "ns = neg # ns'"
    by (auto simp: bind_r_Inr_iff split: option.splits)
  note ih = Cons.IH [OF rest]
  have here: "pos \<in> set seen \<and> neg \<notin> set seen \<and> neg < n_items self"
    using choice_Inr [OF pos] sample_negative_Inr [OF neg] by simp
  show ?case
  proof (intro conjI allI impI)
    fix k assume "k < length (user_id # users)"
    then show "\<exists>seen. userSeenItems self ((user_id # users) ! k) = Some seen \<and>
        ps ! k \<in> set seen \<and> ns ! k \<notin> set seen \<and> ns ! k < n_items self"
      using ih here seen eq by (cases k) auto
  qed (use ih eq in auto)
qed

lemma sampleBatch_Inr:
  assumes "sampleBatch self g = Some (Inr ((users, ps, ns), g'))"
  shows "length users = nat (batch_size self) \<and> length ps = length users \<and>
         length ns = length users \<and> set users \<subseteq> set (eligibleUsers self) \<and>
     (\<forall>k<length users. \<exists>seen. userSeenItems self (users ! k) = Some seen \<and>
        ps ! k \<in> set seen \<and> ns ! k \<notin> set seen \<and> ns ! k < n_items self)"
  using assms
  by (auto simp: sampleBatch_def choice_size_def bind_r_Inr_iff
      split: if_splits dest!: choices_Inr sample_items_Inr)

text \<open>
  C3. Whenever a sampler returns, the positive item is one of the sampled user's seen
  items, the negative item is not, and the negative item is below \<open>n_items\<close>. For
  \<open>sampleItemPair\<close> and \<open>sampleTriple\<close> the seen items are the stored indices of the
  user's row of \<open>URM_train\<close>; for \<open>sampleBatch\<close> they are \<open>userSeenItems\<close> of the
  user, at every position of the three index-aligned lists.
\<close>

theorem sampled_triples_respect_seen_items:
  "(sampleItemPair self user_id gp = Some (Inr ((pos_p, negp), gp')) \<longrightarrow>
      pos_p \<in> fst ` set (sp_row (URM_train self) user_id) \<and>
      negp \<notin> fst ` set (sp_row (URM_train self) user_id) \<and> negp < n_items self) \<and>
   (sampleTriple self gt = Some (Inr ((user_t, pos_t, negt), gt')) \<longrightarrow>
      pos_t \<in> fst ` set (sp_row (URM_train self) user_t) \<and>
      negt \<notin> fst ` set (sp_row (URM_train self) user_t) \<and> negt < n_items self) \<and>
   (sampleBatch self gb = Some (Inr ((users, ps, ns), gb')) \<longrightarrow>
      length ps = length users \<and> length ns = length users \<and>
      (\<forall>k<length users. \<exists>seen. userSeenItems self (users ! k) = Some seen \<and>
         ps ! k \<in> set seen \<and> ns ! k \<notin> set seen \<and> ns ! k < n_items self))"
proof (intro conjI impI)
  assume "sampleBatch self gb = Some (Inr ((users, ps, ns), gb'))"
  from sampleBatch_Inr [OF this]
  show "length ps = length users" and "length ns = length users"
    and "\<forall>k<length users. \<exists>seen. userSeenItems self (users ! k) = Some seen \<and>
         ps ! k \<in> set seen \<and> ns ! k \<notin> set seen \<and> ns ! k < n_items self"
    by simp_all
qed (use sampleItemPair_Inr sampleTriple_Inr in blast)+

theorem sampled_triples_respect_seen_items_witness:
  "sampleItemPair example_object 0 [1, 2] = Some (Inr ((1, 2), [])) \<and>
   sampleTriple example_object [0, 1, 2] = Some (Inr ((0, 1, 2), [])) \<and>
   sampleBatch example_object [0, 1, 7, 0, 1, 9, 2, 0]
     = Some (Inr (([0, 1], [0, 2], [1, 0]), [])) \<and>
   (1::nat) \<in> fst ` set (sp_row (URM_train example_object) 0) \<and>
   (2::nat) \<notin> fst ` set (sp_row (URM_train example_object) 0) \<and>
   (2::nat) < n_items example_object \<and>
   (\<exists>seen. userSeenItems example_object 0 = Some seen \<and> 0 \<in> set seen \<and> 1 \<notin> set seen) \<and>
   (\<exists>seen. userSeenItems example_object 1 = Some seen \<and> 2 \<in> set seen \<and> 0 \<notin> set seen)"
proof -
  have pair: "sampleItemPair example_object 0 [1, 2] = Some (Inr ((1, 2), []))"
    by code_simp
  have triple: "sampleTriple example_object [0, 1, 2] = Some (Inr ((0, 1, 2), []))"
    by code_simp
  have batch: "sampleBatch example_object [0, 1, 7, 0, 1, 9, 2, 0]
     = Some (Inr (([0, 1], [0, 2], [1, 0]), []))"
    by code_simp
  note all = sampled_triples_respect_seen_items [where self = example_object
      and user_id = 0 and gp = "[1, 2]" and pos_p = 1 and negp = 2 and gp' = "[]"
      and gt = "[0, 1, 2]" and user_t = 0 and pos_t = 1 and negt = 2 and gt' = "[]"
      and gb = "[0, 1, 7, 0, 1, 9, 2, 0]" and users = "[0, 1]" and ps = "[0, 2]"
      and ns = "[1, 0]" and gb' = "[]"]
  from all pair have p: "(1::nat) \<in> fst ` set (sp_row (URM_train example_object) 0) \<and>
      (2::nat) \<notin> fst ` set (sp_row (URM_train example_object) 0) \<and>
      (2::nat) < n_items example_object"
    by blast
  from all batch have b: "\<forall>k<length [0::nat, 1]. \<exists>seen.
      userSeenItems example_object ([0, 1] ! k) = Some seen \<and>
      [0, 2] ! k \<in> set seen \<and> [1, 0] ! k \<notin> set seen \<and> [1, 0] ! k < n_items example_object"
    by blast
  from b [rule_format, of 0] b [rule_format, of 1]
  have "(\<exists>seen. userSeenItems example_object 0 = Some seen \<and> 0 \<in> set seen \<and> 1 \<notin> set seen) \<and>
        (\<exists>seen. userSeenItems example_object 1 = Some seen \<and> 2 \<in> set seen \<and> 0 \<notin> set seen)"
    by auto
  with pair triple batch p show ?thesis
    by blast
qed

section \<open>Concrete runs\<close>

lemma example_URM_canonical: "sum_duplicates (+) example_URM = example_URM"
  by code_simp

lemma example_fast_sampling:
  "initializeFastSampling (init example_URM 3) 3 =
     Inr ((init example_URM 3)\<lparr>eligibleUsers := [0, 1],
                                 userSeenItems := [0 \<mapsto> [0], 1 \<mapsto> [2]]\<rparr>)"
proof -
  have "URM_train (init example_URM 3) = example_URM"
    by (simp add: init_def)
  then show ?thesis
    unfolding initializeFastSampling_def positive_part_def Let_def
    by (simp add: example_URM_canonical)
      (simp add: init_def example_URM_def getrow_def sp_row_def bind_e_def upt_rec [of 0]
        upt_rec [of 1] upt_rec [of 2] upt_rec [of 3] numeral_3_eq_3)
qed

text \<open>
  C6, at the matrix \<open>example_URM\<close> with threshold 3. The fast-sampling initialisation
  keeps the values above the threshold only: user 0 rated item 1 with exactly 3, so the
  item is in row 0 of the positive mask (built with \<open>\<ge>\<close>) but not in
  \<open>userSeenItems\<close> of user 0; user 2 has item 1 in the mask and is not an eligible
  user.
\<close>

theorem fast_sampling_uses_strict_threshold:
  "bind_e (initializeFastSampling (init example_URM 3) 3)
       (\<lambda>s. Inr (eligibleUsers s, userSeenItems s 0, userSeenItems s 1, userSeenItems s 2))
     = Inr ([0, 1], Some [0], Some [2], None) \<and>
   map fst (sp_row (URM_mask (init example_URM 3)) 0) = [0, 1] \<and>
   map fst (sp_row (URM_mask (init example_URM 3)) 2) = [1]"
  by code_simp

text \<open>
  C8, at \<^verbatim>\<open>topK = 0\<close>. \<^verbatim>\<open>0 != False\<close> is false in Python, so the check at the head
  of \<open>fit_alreadyInitialized\<close> lets the value through: \<open>fit\<close> with one epoch returns
  normally, stores 0 as \<open>topK\<close> and exports the dense view as if \<open>topK\<close> were
  disabled.
\<close>

theorem fit_accepts_topK_zero:
  "map_option (map_sum id (\<lambda>(s, g). (topK s, W s, W_sparse s, S s)))
     (fit argsort_stable (init example_URM 3) 1 1 0 0 1 (PyInt 0) [])
   = Some (Inr (PyInt 0, Some View_S_T, None, [[0, 0, 0], [0, 0, 0], [0, 0, 0]]))"
proof -
  have thr: "positive_threshold (init example_URM 3) = 3"
    by (simp add: init_def)
  have one: "[0..<nat 1] = [0]"
    by simp
  show ?thesis
    unfolding fit_def thr example_fast_sampling fit_alreadyInitialized_def one
    by (simp add: ne_False_def updateSimilarityMatrix_def bind_r_def init_def
        example_URM_def numeral_3_eq_3)
qed

text \<open>
  C9, at a dense \<open>S\<close> with \<^verbatim>\<open>topK = 1\<close>. The top-K selection writes through the
  view \<^verbatim>\<open>self.S.T\<close>: row 0 of \<open>S\<close> is \<open>[0, 1, 2]\<close> before the call and
  \<open>[0, 0, 2]\<close> after it.
\<close>

theorem updateSimilarityMatrix_overwrites_S:
  "bind_e (updateSimilarityMatrix argsort_stable
        (example_object\<lparr>S := [[0, 1, 2], [0, 0, 0], [0, 0, 0]], topK := PyInt 1\<rparr>))
       (\<lambda>s. Inr (S s, W_sparse s))
     = Inr ([[0, 0, 2], [0, 0, 0], [0, 0, 0]],
         Some (Owned (Sparse \<lparr>sp_layout = CSR, sp_shape = (3, 3), sp_entries = [(2, 0, 2)]\<rparr>)))"
  by code_simp

text \<open>
  C5, at user 0 of \<open>example_object\<close> after an export with \<^verbatim>\<open>topK = 1\<close>. The user
  has interacted with items 0 and 1; with \<^verbatim>\<open>at=None\<close> and \<^verbatim>\<open>exclude_seen=True\<close>
  the ranking returned holds all three items, the two seen ones last.
\<close>

theorem recommend_full_ranking_returns_seen_items:
  "bind_e (updateSimilarityMatrix argsort_stable (example_object\<lparr>topK := PyInt 1\<rparr>))
       (\<lambda>s. recommend argsort_stable s 0 None True) = Inr [2, 1, 0] \<and>
   map fst (sp_row (URM_train example_object) 0) = [0, 1]"
  by code_simp

section \<open>Updates of the dense array\<close>

lemma length_set_cell: "length (set_cell A r c v) = length A"
  by (simp add: set_cell_def)

lemma nth_set_cell:
  "set_cell A r c v ! r' = (if r' = r \<and> r < length A then (A ! r)[c := v] else A ! r')"
proof (cases "r < length A")
  case True
  then show ?thesis by (simp add: set_cell_def nth_list_update)
next
  case False
  then show ?thesis by (simp add: set_cell_def list_update_beyond)
qed

lemma length_nth_set_cell: "length (set_cell A r c v ! r') = length (A ! r')"
  by (simp add: nth_set_cell)

lemma cell_set_cell:
  "set_cell A r c v ! r' ! c' = (if (r', c') = (r, c) \<and> in_range A (r, c) then v else A ! r' ! c')"
proof (cases "c < length (A ! r)")
  case True
  then show ?thesis by (auto simp: nth_set_cell in_range_def nth_list_update)
next
  case False
  then show ?thesis by (auto simp: nth_set_cell in_range_def list_update_beyond)
qed

lemma in_range_set_cell: "in_range (set_cell A r c v) p = in_range A p"
  by (simp add: in_range_def length_set_cell length_nth_set_cell)

lemma set_cells_map:
  "set_cells A ps (map f ps) = fold (\<lambda>p B. set_cell B (fst p) (snd p) (f p)) ps A"
proof -
  have "zip ps (map f ps) = map (\<lambda>p. (p, f p)) ps"
    by (induction ps) auto
  then show ?thesis
    by (simp add: set_cells_def fold_map comp_def)
qed

lemma shape_fold_set_cell:
  "length (fold (\<lambda>p B. set_cell B (fst p) (snd p) (f p)) ps A) = length A \<and>
   length (fold (\<lambda>p B. set_cell B (fst p) (snd p) (f p)) ps A ! r) = length (A ! r)"
  by (induction ps arbitrary: A) (simp_all add: length_set_cell length_nth_set_cell)

lemma in_range_fold_set_cell:
  "in_range (fold (\<lambda>p B. set_cell B (fst p) (snd p) (f p)) ps A) q = in_range A q"
  by (simp add: in_range_def shape_fold_set_cell)

lemma cell_fold_set_cell:
  "fold (\<lambda>p B. set_cell B (fst p) (snd p) (f p)) ps A ! r ! c =
     (if (r, c) \<in> set ps \<and> in_range A (r, c) then f (r, c) else A ! r ! c)"
proof (induction ps rule: rev_induct)
  case Nil
  then show ?case by simp
next
  case (snoc p ps)
  show ?case
    by (cases p) (auto simp: cell_set_cell in_range_fold_set_cell snoc.IH)
qed

lemma is_matrix_nth: "is_matrix m n A \<Longrightarrow> r < m \<Longrightarrow> length (A ! r) = n"
  by (simp add: is_matrix_def list_all_length)

lemma is_matrix_iff: "is_matrix m n A \<longleftrightarrow> length A = m \<and> (\<forall>r<m. length (A ! r) = n)"
  by (auto simp: is_matrix_def list_all_length)

lemma is_matrix_set_cells:
  "is_matrix m n A \<Longrightarrow> is_matrix m n (set_cells A ps (map f ps))"
  by (simp add: is_matrix_iff set_cells_map shape_fold_set_cell)

lemma cell_set_cells:
  "set_cells A ps (map f ps) ! r ! c =
     (if (r, c) \<in> set ps \<and> in_range A (r, c) then f (r, c) else A ! r ! c)"
  by (simp add: set_cells_map cell_fold_set_cell)

text \<open>rows\<close>

lemma set_rows_map: "set_rows A idx (map f idx) = fold (\<lambda>r B. B[r := f r]) idx A"
proof -
  have "zip idx (map f idx) = map (\<lambda>r. (r, f r)) idx"
    by (induction idx) auto
  then show ?thesis
    by (simp add: set_rows_def fold_map comp_def)
qed

lemma length_fold_row: "length (fold (\<lambda>r B. B[r := f r]) idx A) = length A"
  by (induction idx arbitrary: A) simp_all

lemma nth_fold_row:
  "r < length A \<Longrightarrow>
     fold (\<lambda>r B. B[r := f r]) idx A ! r = (if r \<in> set idx then f r else A ! r)"
proof (induction idx rule: rev_induct)
  case Nil
  then show ?case by simp
next
  case (snoc x idx)
  then show ?case
    by (cases "x = r") (auto simp: nth_list_update length_fold_row)
qed

lemma nth_set_rows:
  "r < length A \<Longrightarrow> set_rows A idx (map f idx) ! r = (if r \<in> set idx then f r else A ! r)"
  by (simp add: set_rows_map nth_fold_row)

lemma length_set_rows: "length (set_rows A idx (map f idx)) = length A"
  by (simp add: set_rows_map length_fold_row)


lemma broadcast2_single: "broadcast2 [x] ys = Inr (map (Pair x) ys)"
proof (cases "length ys = 1")
  case True
  then obtain y where "ys = [y]"
    by (cases ys) auto
  then show ?thesis by (simp add: broadcast2_def)
next
  case False
  then show ?thesis by (auto simp: broadcast2_def)
qed

lemma in_range_matrix: "is_matrix m n A \<Longrightarrow> in_range A (r, c) \<longleftrightarrow> r < m \<and> c < n"
  by (auto simp: in_range_def is_matrix_iff)

lemma get_cells_single:
  assumes "is_matrix m n A" "i < m" "\<forall>item\<in>set seen. item < n"
  shows "get_cells A (map (Pair i) seen) = Inr (map (\<lambda>item. A ! i ! item) seen)"
  using assms by (simp add: get_cells_def list_all_iff in_range_matrix comp_def)

lemma iadd_cells_single:
  assumes "is_matrix m n A" "i < m" "\<forall>item\<in>set seen. item < n"
  shows "\<exists>B. iadd_cells A [i] seen x = Inr B \<and> is_matrix m n B \<and>
     (\<forall>r<m. \<forall>c<n. B ! r ! c = (if r = i \<and> c \<in> set seen then A ! r ! c + x else A ! r ! c))"
proof -
  let ?ps = "map (Pair i) seen"
  let ?B = "set_cells A ?ps (map (\<lambda>p. A ! fst p ! snd p + x) ?ps)"
  have "iadd_cells A [i] seen x = Inr ?B"
    using get_cells_single [OF assms]
    by (simp add: iadd_cells_def broadcast2_single bind_e_def comp_def)
  moreover have "is_matrix m n ?B"
    using assms(1) by (rule is_matrix_set_cells)
  moreover have "\<forall>r<m. \<forall>c<n. ?B ! r ! c = (if r = i \<and> c \<in> set seen then A ! r ! c + x else A ! r ! c)"
    using assms(1) by (auto simp: cell_set_cells in_range_matrix simp del: map_map)
  ultimately show ?thesis by blast
qed

lemma isub_cells_single:
  assumes "is_matrix m n A" "i < m" "\<forall>item\<in>set seen. item < n"
  shows "\<exists>B. isub_cells A [i] seen x = Inr B \<and> is_matrix m n B \<and>
     (\<forall>r<m. \<forall>c<n. B ! r ! c = (if r = i \<and> c \<in> set seen then A ! r ! c - x else A ! r ! c))"
proof -
  let ?ps = "map (Pair i) seen"
  let ?B = "set_cells A ?ps (map (\<lambda>p. A ! fst p ! snd p - x) ?ps)"
  have "isub_cells A [i] seen x = Inr ?B"
    using get_cells_single [OF assms]
    by (simp add: isub_cells_def broadcast2_single bind_e_def comp_def)
  moreover have "is_matrix m n ?B"
    using assms(1) by (rule is_matrix_set_cells)
  moreover have "\<forall>r<m. \<forall>c<n. ?B ! r ! c = (if r = i \<and> c \<in> set seen then A ! r ! c - x else A ! r ! c)"
    using assms(1) by (auto simp: cell_set_cells in_range_matrix simp del: map_map)
  ultimately show ?thesis by blast
qed

lemma zero_diag_cells:
  assumes "is_matrix m n A" "\<forall>k\<in>set idx. k < m \<and> k < n"
  shows "\<exists>B. zero_diag A idx = Inr B \<and> is_matrix m n B \<and>
     (\<forall>r<m. \<forall>c<n. B ! r ! c = (if r = c \<and> r \<in> set idx then 0 else A ! r ! c))"
proof -
  let ?ps = "zip idx idx"
  let ?B = "set_cells A ?ps (map (\<lambda>p. 0) ?ps)"
  have mem: "(r, c) \<in> set ?ps \<longleftrightarrow> r = c \<and> r \<in> set idx" for r c
    by (induction idx) auto
  have "list_all (in_range A) ?ps"
    using assms by (auto simp: list_all_iff in_range_matrix mem)
  then have "zero_diag A idx = Inr ?B"
    by (simp add: zero_diag_def Let_def)
  moreover have "is_matrix m n ?B"
    using assms(1) by (rule is_matrix_set_cells)
  moreover have "\<forall>r<m. \<forall>c<n. ?B ! r ! c = (if r = c \<and> r \<in> set idx then 0 else A ! r ! c)"
    using assms(1) by (auto simp: cell_set_cells in_range_matrix mem)
  ultimately show ?thesis by blast
qed

lemma sub1_same_length:
  "length xs = length ys \<Longrightarrow> sub1 xs ys = Inr (map2 (\<lambda>x y. x - y) xs ys)"
  by (simp add: sub1_def)

lemma map2_maps: "map2 h (map f xs) (map g xs) = map (\<lambda>x. h (f x) (g x)) xs"
  by (induction xs) auto

text \<open>
  C1. With \<^verbatim>\<open>batch_size = 1\<close> and a triple \<open>(u, i, j)\<close> with \<open>i \<noteq> j\<close> (a sampled
  triple has \<open>i\<close> among the seen items of \<open>u\<close> and \<open>j\<close> outside them), the
  update succeeds and the new \<open>S\<close> is given cell by cell: with \<open>x_uij\<close> the sum
  over the seen items of \<open>S[i, item] - S[j, item]\<close> on the old \<open>S\<close> and
  \<open>gradient = 1 / (1 + exp x_uij)\<close>, the cells \<open>S[i, i]\<close> and \<open>S[j, j]\<close> are 0, every
  other cell of row \<open>i\<close> in a seen column gained \<open>learning_rate * gradient\<close>, every
  other cell of row \<open>j\<close> in a seen column lost it, and no other cell changed.
\<close>

theorem updateWeightsBatch_single_triple:
  assumes "batch_size self = 1"
    and "userSeenItems self u = Some seen"
    and "is_matrix n n (S self)"
    and "i < n" and "j < n" and "i \<noteq> j"
    and "\<forall>item\<in>set seen. item < n"
  shows "\<exists>S'. updateWeightsBatch self [u] [i] [j] = Inr (self\<lparr>S := S'\<rparr>) \<and> is_matrix n n S' \<and>
     (\<forall>r<n. \<forall>c<n. S' ! r ! c =
        (let x_uij = (\<Sum>item\<leftarrow>seen. S self ! i ! item - S self ! j ! item);
             gradient = 1 / (1 + exp x_uij)
         in if r = c \<and> (r = i \<or> r = j) then 0
            else if r = i \<and> c \<in> set seen then S self ! r ! c + learning_rate self * gradient
            else if r = j \<and> c \<in> set seen then S self ! r ! c - learning_rate self * gradient
            else S self ! r ! c))"
proof -
  define x where "x = (\<Sum>item\<leftarrow>seen. S self ! i ! item - S self ! j ! item)"
  define d where "d = learning_rate self * (1 / (1 + exp x))"
  note mat = assms(3) and seen = assms(7)
  have xi: "get_cells (S self) (map (Pair i) seen) = Inr (map (\<lambda>item. S self ! i ! item) seen)"
    using mat \<open>i < n\<close> seen by (rule get_cells_single)
  have xj: "get_cells (S self) (map (Pair j) seen) = Inr (map (\<lambda>item. S self ! j ! item) seen)"
    using mat \<open>j < n\<close> seen by (rule get_cells_single)
  have diff: "sub1 (map (\<lambda>item. S self ! i ! item) seen) (map (\<lambda>item. S self ! j ! item) seen)
      = Inr (map (\<lambda>item. S self ! i ! item - S self ! j ! item) seen)"
    by (simp add: sub1_same_length map2_maps)
  from iadd_cells_single [OF mat \<open>i < n\<close> seen, of d] obtain S1 where
    S1: "iadd_cells (S self) [i] seen d = Inr S1" "is_matrix n n S1"
    and c1: "\<forall>r<n. \<forall>c<n. S1 ! r ! c = (if r = i \<and> c \<in> set seen then S self ! r ! c + d else S self ! r ! c)"
    by blast
  from zero_diag_cells [OF S1(2), of "[i]"] \<open>i < n\<close> obtain S2 where
    S2: "zero_diag S1 [i] = Inr S2" "is_matrix n n S2"
    and c2: "\<forall>r<n. \<forall>c<n. S2 ! r ! c = (if r = c \<and> r \<in> set [i] then 0 else S1 ! r ! c)"
    by auto
  from isub_cells_single [OF S2(2) \<open>j < n\<close> seen, of d] obtain S3 where
    S3: "isub_cells S2 [j] seen d = Inr S3" "is_matrix n n S3"
    and c3: "\<forall>r<n. \<forall>c<n. S3 ! r ! c = (if r = j \<and> c \<in> set seen then S2 ! r ! c - d else S2 ! r ! c)"
    by blast
  from zero_diag_cells [OF S3(2), of "[j]"] \<open>j < n\<close> obtain S4 where
    S4: "zero_diag S3 [j] = Inr S4" "is_matrix n n S4"
    and c4: "\<forall>r<n. \<forall>c<n. S4 ! r ! c = (if r = c \<and> r \<in> set [j] then 0 else S3 ! r ! c)"
    by auto
  have run: "updateWeightsBatch self [u] [i] [j] = Inr (self\<lparr>S := S4\<rparr>)"
    using S1(1) S2(1) S3(1) S4(1) unfolding updateWeightsBatch_def d_def x_def
    by (simp add: assms(1,2) broadcast2_single xi xj diff bind_e_def Let_def)
  have cells: "\<forall>r<n. \<forall>c<n. S4 ! r ! c =
        (if r = c \<and> (r = i \<or> r = j) then 0
         else if r = i \<and> c \<in> set seen then S self ! r ! c + d
         else if r = j \<and> c \<in> set seen then S self ! r ! c - d
         else S self ! r ! c)"
    using c1 c2 c3 c4 \<open>i \<noteq> j\<close> by auto
  show ?thesis
    using run S4(2) cells unfolding Let_def d_def x_def by blast
qed


theorem updateWeightsBatch_single_triple_witness:
  "\<exists>S'. updateWeightsBatch (example_object\<lparr>batch_size := 1, userSeenItems := [0 \<mapsto> [0, 2]]\<rparr>)
           [0] [0] [1]
         = Inr (example_object\<lparr>batch_size := 1, userSeenItems := [0 \<mapsto> [0, 2]], S := S'\<rparr>) \<and>
        S' ! 0 ! 0 = 0 \<and> S' ! 0 ! 2 = 1 / 2 \<and> S' ! 1 ! 0 = - (1 / 2) \<and> S' ! 1 ! 1 = 0 \<and>
        S' ! 1 ! 2 = - (1 / 2) \<and> S' ! 2 ! 0 = 0"
proof -
  let ?st = "example_object\<lparr>batch_size := 1, userSeenItems := [0 \<mapsto> [0, 2]]\<rparr>"
  have h1: "batch_size ?st = 1" by simp
  have h2: "userSeenItems ?st 0 = Some [0, 2]" by simp
  have h3: "is_matrix 3 3 (S ?st)" by (simp add: example_object_def is_matrix_def)
  have h4: "\<forall>item\<in>set [0, 2::nat]. item < 3" by simp
  have S0: "S ?st = [[0, 0, 0], [0, 0, 0], [0, 0, 0]]" and lr: "learning_rate ?st = 1"
    by (simp_all add: example_object_def)
  from updateWeightsBatch_single_triple [OF h1 h2 h3 _ _ _ h4, of 0 1]
  obtain S' where run: "updateWeightsBatch ?st [0] [0] [1] = Inr (?st\<lparr>S := S'\<rparr>)"
    and cells: "\<forall>r<3. \<forall>c<3. S' ! r ! c =
        (let x_uij = (\<Sum>item\<leftarrow>[0, 2]. S ?st ! 0 ! item - S ?st ! 1 ! item);
             gradient = 1 / (1 + exp x_uij)
         in if r = c \<and> (r = 0 \<or> r = 1) then 0
            else if r = 0 \<and> c \<in> set [0, 2] then S ?st ! r ! c + learning_rate ?st * gradient
            else if r = 1 \<and> c \<in> set [0, 2] then S ?st ! r ! c - learning_rate ?st * gradient
            else S ?st ! r ! c)"
    by auto
  have vals: "S' ! 0 ! 0 = 0" "S' ! 0 ! 2 = 1 / 2" "S' ! 1 ! 0 = - (1 / 2)" "S' ! 1 ! 1 = 0"
       "S' ! 1 ! 2 = - (1 / 2)" "S' ! 2 ! 0 = 0"
    using cells [rule_format, of 0 0] cells [rule_format, of 0 2] cells [rule_format, of 1 0]
      cells [rule_format, of 1 1] cells [rule_format, of 1 2] cells [rule_format, of 2 0]
    unfolding S0 lr by simp_all
  show ?thesis
    by (rule exI [of _ S']) (use run vals in blast)
qed

lemma get_rows_all:
  "\<forall>r\<in>set idx. r < length A \<Longrightarrow> get_rows A idx = Inr (map (\<lambda>r. A ! r) idx)"
  by (simp add: get_rows_def list_all_iff)

lemma iadd_rows_cells:
  assumes "is_matrix m n A" "\<forall>r\<in>set idx. r < m" "length vec = n"
  shows "\<exists>B. iadd_rows A idx vec = Inr B \<and> is_matrix m n B \<and>
     (\<forall>r<m. \<forall>c<n. B ! r ! c = (if r \<in> set idx then A ! r ! c + vec ! c else A ! r ! c))"
proof -
  let ?f = "\<lambda>r. map2 (\<lambda>x y. x + y) (A ! r) vec"
  let ?B = "set_rows A idx (map ?f idx)"
  have len: "length A = m" and rows: "\<forall>r<m. length (A ! r) = n"
    using assms(1) by (simp_all add: is_matrix_iff)
  have "iadd_rows A idx vec = Inr ?B"
    using assms(2) len by (simp add: iadd_rows_def get_rows_all bind_e_def comp_def)
  moreover have "is_matrix m n ?B"
    using len rows assms(3) by (auto simp: is_matrix_iff length_set_rows nth_set_rows)
  moreover have "\<forall>r<m. \<forall>c<n. ?B ! r ! c = (if r \<in> set idx then A ! r ! c + vec ! c else A ! r ! c)"
    using len rows assms(3) by (auto simp: nth_set_rows)
  ultimately show ?thesis by blast
qed

lemma isub_rows_cells:
  assumes "is_matrix m n A" "\<forall>r\<in>set idx. r < m" "length vec = n"
  shows "\<exists>B. isub_rows A idx vec = Inr B \<and> is_matrix m n B \<and>
     (\<forall>r<m. \<forall>c<n. B ! r ! c = (if r \<in> set idx then A ! r ! c - vec ! c else A ! r ! c))"
proof -
  let ?f = "\<lambda>r. map2 (\<lambda>x y. x - y) (A ! r) vec"
  let ?B = "set_rows A idx (map ?f idx)"
  have len: "length A = m" and rows: "\<forall>r<m. length (A ! r) = n"
    using assms(1) by (simp_all add: is_matrix_iff)
  have "isub_rows A idx vec = Inr ?B"
    using assms(2) len by (simp add: isub_rows_def get_rows_all bind_e_def comp_def)
  moreover have "is_matrix m n ?B"
    using len rows assms(3) by (auto simp: is_matrix_iff length_set_rows nth_set_rows)
  moreover have "\<forall>r<m. \<forall>c<n. ?B ! r ! c = (if r \<in> set idx then A ! r ! c - vec ! c else A ! r ! c)"
    using len rows assms(3) by (auto simp: nth_set_rows)
  ultimately show ?thesis by blast
qed

lemma sum_list_pos_iff:
  fixes xs :: "real list"
  assumes "\<forall>x\<in>set xs. 0 \<le> x"
  shows "0 < sum_list xs \<longleftrightarrow> (\<exists>x\<in>set xs. 0 < x)"
  using assms
proof (induction xs)
  case Nil
  then show ?case by simp
next
  case (Cons x xs)
  then have "0 \<le> x" and "0 \<le> sum_list xs"
    by (simp_all add: sum_list_nonneg)
  with Cons show ?case
    by (auto simp: add_pos_nonneg add_nonneg_pos)
qed

lemma sum_list_ones:
  fixes xs :: "('a \<times> real) list"
  shows "(\<And>e. e \<in> set xs \<Longrightarrow> snd e = 1) \<Longrightarrow>
     sum_list (map snd (filter P xs)) = real (length (filter P xs))"
  by (induction xs) auto

lemma sp_row_mask:
  assumes "is_mask X" "e \<in> set (sp_row X r)"
  shows "snd e = 1"
  using assms by (auto simp: is_mask_def sp_row_def list_all_iff)

lemma sp_row_ok:
  assumes "sp_ok X" "e \<in> set (sp_row X r)"
  shows "fst e < snd (sp_shape X)"
  using assms by (auto simp: sp_ok_def sp_row_def list_all_iff)

lemma itemsToUpdate_nth:
  assumes "is_mask X" "c < snd (sp_shape X)"
  shows "itemsToUpdate X u ! c \<longleftrightarrow> (\<exists>user\<in>set u. c \<in> fst ` set (sp_row X user))"
proof -
  let ?inner = "\<lambda>user. sum_list (map snd (filter (\<lambda>e. fst e = c) (sp_row X user)))"
  have inner: "?inner user = real (length (filter (\<lambda>e. fst e = c) (sp_row X user)))" for user
    using sp_row_mask [OF assms(1), of _ user] by (intro sum_list_ones) blast
  have pos: "0 < ?inner user \<longleftrightarrow> c \<in> fst ` set (sp_row X user)" for user
    unfolding inner by (auto simp: filter_empty_conv image_iff)
  have "0 < sum_list (map ?inner u) \<longleftrightarrow> (\<exists>x\<in>set (map ?inner u). 0 < x)"
    by (rule sum_list_pos_iff) (auto simp: inner)
  also have "\<dots> \<longleftrightarrow> (\<exists>user\<in>set u. c \<in> fst ` set (sp_row X user))"
    using pos by auto
  finally show ?thesis
    using assms(2) by (simp add: itemsToUpdate_def)
qed

lemma length_itemsToUpdate: "length (itemsToUpdate X u) = snd (sp_shape X)"
  by (simp add: itemsToUpdate_def)


lemma shape_matrix: "is_matrix m n A \<Longrightarrow> 0 < m \<Longrightarrow> shape A = (m, n)"
  by (cases A) (auto simp: shape_def is_matrix_def)

lemma sub2_same_length:
  "length A = length B \<Longrightarrow> sub2 A B = Inr (map2 (\<lambda>a b. map2 (\<lambda>x y. x - y) a b) A B)"
  by (simp add: sub2_def)

lemma sigmoid_neg: "sigmoidFunction (- x) = 1 / (1 + exp x)"
  by (simp add: sigmoidFunction_def)

text \<open>
  C2. With \<^verbatim>\<open>batch_size > 1\<close> and index-aligned \<open>u\<close>, \<open>i\<close>, \<open>j\<close> of that length,
  the update succeeds and the new \<open>S\<close> is given cell by cell. \<open>x_uij row\<close> is the sum
  of \<open>S[i[row]] - S[j[row]]\<close> over the positive-mask row of user \<open>u[row]\<close> alone; the
  gradient is the one scalar mean of \<open>sigmoidFunction (- x_uij row)\<close> over the rows;
  \<open>step c\<close> is \<open>learning_rate * gradient\<close> where some user of the batch has item
  \<open>c\<close> in its mask row and 0 elsewhere. Every row named in \<open>i\<close> gains the step
  vector (once, however often it is named), every row named in \<open>j\<close> loses it (a row
  named in both gains and loses it), and the diagonal cells of all these rows are 0.
\<close>

theorem updateWeightsBatch_batch_mean:
  assumes bs: "1 < batch_size self"
    and lu: "int (length u) = batch_size self"
    and li: "length i = length u" and lj: "length j = length u"
    and mat: "is_matrix n n (S self)"
    and shp: "sp_shape (URM_mask self) = (m, n)"
    and ok: "sp_ok (URM_mask self)" and msk: "is_mask (URM_mask self)"
    and ur: "\<forall>x\<in>set u. x < m" and ir: "\<forall>x\<in>set i. x < n" and jr: "\<forall>x\<in>set j. x < n"
  shows "\<exists>S'. updateWeightsBatch self u i j = Inr (self\<lparr>S := S'\<rparr>) \<and> is_matrix n n S' \<and>
     (\<forall>r<n. \<forall>c<n. S' ! r ! c =
        (let x_uij = (\<lambda>row. \<Sum>item\<leftarrow>map fst (sp_row (URM_mask self) (u ! row)).
                         S self ! (i ! row) ! item - S self ! (j ! row) ! item);
             gradient = (\<Sum>row\<leftarrow>[0..<length u]. sigmoidFunction (- x_uij row)) / real (length u);
             step = (\<lambda>c. if \<exists>user\<in>set u. c \<in> fst ` set (sp_row (URM_mask self) user)
                         then learning_rate self * gradient else 0)
         in if r = c \<and> (r \<in> set i \<or> r \<in> set j) then 0
            else S self ! r ! c + (if r \<in> set i then step c else 0)
                                - (if r \<in> set j then step c else 0)))"
proof -
  define A where "A = S self"
  define Mk where "Mk = URM_mask self"
  define D where "D = map2 (\<lambda>a b. map2 (\<lambda>x y. x - y) a b) (map (\<lambda>r. A ! r) i) (map (\<lambda>r. A ! r) j)"
  define X where "X = map2 (\<lambda>user xrow. sum_list (map (\<lambda>e. snd e * xrow ! fst e) (sp_row Mk user))) u D"
  define x where "x = (\<lambda>row. \<Sum>item\<leftarrow>map fst (sp_row Mk (u ! row)).
                         A ! (i ! row) ! item - A ! (j ! row) ! item)"
  define g where "g = sum_list (map (\<lambda>x. 1 / (1 + exp x)) X) / real_of_int (batch_size self)"
  define stepv where "stepv = scale_mask (learning_rate self * g) (itemsToUpdate Mk u)"
  have lenA: "length A = n" and rowA: "\<And>r. r < n \<Longrightarrow> length (A ! r) = n"
    using mat by (simp_all add: A_def is_matrix_iff)
  have "2 \<le> length u"
    using bs lu by linarith
  then have "i \<noteq> []"
    using li by auto
  then have "0 < n"
    using ir by (cases i) auto
  have shapeA: "snd (shape A) = n"
    using shape_matrix [OF mat \<open>0 < n\<close>] by (simp add: A_def)
  have xi: "get_rows A i = Inr (map (\<lambda>r. A ! r) i)"
    using ir lenA by (simp add: get_rows_all)
  have xj: "get_rows A j = Inr (map (\<lambda>r. A ! r) j)"
    using jr lenA by (simp add: get_rows_all)
  have diff: "sub2 (map (\<lambda>r. A ! r) i) (map (\<lambda>r. A ! r) j) = Inr D"
    unfolding D_def using li lj by (intro sub2_same_length) simp
  have dot: "mask_dot_diagonal Mk u D n = Inr X"
    using ur shp by (simp add: mask_dot_diagonal_def X_def Mk_def list_all_iff)
  have lenD: "length D = length u"
    using li lj by (simp add: D_def)
  have lenX: "length X = length u"
    using lenD by (simp add: X_def)
  have Dk: "D ! k ! c = A ! (i ! k) ! c - A ! (j ! k) ! c" if "k < length u" "c < n" for k c
    using that li lj ir jr rowA by (simp add: D_def)
  have Xk: "X ! k = x k" if "k < length u" for k
  proof -
    have "X ! k = sum_list (map (\<lambda>e. snd e * D ! k ! fst e) (sp_row Mk (u ! k)))"
      using that lenD by (simp add: X_def)
    also have "\<dots> = sum_list (map (\<lambda>e. A ! (i ! k) ! fst e - A ! (j ! k) ! fst e) (sp_row Mk (u ! k)))"
    proof (intro arg_cong [where f = sum_list] map_cong refl)
      fix e assume e: "e \<in> set (sp_row Mk (u ! k))"
      then have "snd e = 1" and "fst e < n"
        using sp_row_mask [OF msk] sp_row_ok [OF ok] shp by (auto simp: Mk_def)
      then show "snd e * D ! k ! fst e = A ! (i ! k) ! fst e - A ! (j ! k) ! fst e"
        using Dk [OF that] by simp
    qed
    also have "\<dots> = x k"
      by (simp add: x_def comp_def)
    finally show ?thesis .
  qed
  have X_eq: "X = map x [0..<length u]"
    using lenX Xk by (intro nth_equalityI) auto
  have g_eq: "g = (\<Sum>row\<leftarrow>[0..<length u]. sigmoidFunction (- x row)) / real (length u)"
    unfolding g_def X_eq lu [symmetric] by (simp add: comp_def sigmoid_neg)
  have len_step: "length stepv = n"
    using shp by (simp add: stepv_def scale_mask_def length_itemsToUpdate Mk_def)
  have step_nth: "stepv ! c = (if \<exists>user\<in>set u. c \<in> fst ` set (sp_row Mk user)
                         then learning_rate self * g else 0)" if "c < n" for c
    using that shp itemsToUpdate_nth [OF msk, of c u]
    by (simp add: stepv_def scale_mask_def length_itemsToUpdate Mk_def)
  have matA: "is_matrix n n A"
    using mat by (simp add: A_def)
  from iadd_rows_cells [OF matA ir len_step] obtain S1 where
    S1: "iadd_rows A i stepv = Inr S1" "is_matrix n n S1"
    and c1: "\<forall>r<n. \<forall>c<n. S1 ! r ! c = (if r \<in> set i then A ! r ! c + stepv ! c else A ! r ! c)"
    by blast
  from zero_diag_cells [OF S1(2), of i] ir obtain S2 where
    S2: "zero_diag S1 i = Inr S2" "is_matrix n n S2"
    and c2: "\<forall>r<n. \<forall>c<n. S2 ! r ! c = (if r = c \<and> r \<in> set i then 0 else S1 ! r ! c)"
    by auto
  from isub_rows_cells [OF S2(2) jr len_step] obtain S3 where
    S3: "isub_rows S2 j stepv = Inr S3" "is_matrix n n S3"
    and c3: "\<forall>r<n. \<forall>c<n. S3 ! r ! c = (if r \<in> set j then S2 ! r ! c - stepv ! c else S2 ! r ! c)"
    by blast
  from zero_diag_cells [OF S3(2), of j] jr obtain S4 where
    S4: "zero_diag S3 j = Inr S4" "is_matrix n n S4"
    and c4: "\<forall>r<n. \<forall>c<n. S4 ! r ! c = (if r = c \<and> r \<in> set j then 0 else S3 ! r ! c)"
    by auto
  have run: "updateWeightsBatch self u i j = Inr (self\<lparr>S := S4\<rparr>)"
    using S1(1) S2(1) S3(1) S4(1) bs xi xj diff dot shapeA
    unfolding updateWeightsBatch_def stepv_def g_def A_def Mk_def
    by (simp add: bind_e_def Let_def)
  have cells: "\<forall>r<n. \<forall>c<n. S4 ! r ! c =
        (if r = c \<and> (r \<in> set i \<or> r \<in> set j) then 0
         else A ! r ! c + (if r \<in> set i then stepv ! c else 0)
                        - (if r \<in> set j then stepv ! c else 0))"
    using c1 c2 c3 c4 by auto
  have final: "S4 ! r ! c =
        (if r = c \<and> (r \<in> set i \<or> r \<in> set j) then 0
         else A ! r ! c
              + (if r \<in> set i
                 then (if \<exists>user\<in>set u. c \<in> fst ` set (sp_row Mk user)
                       then learning_rate self * g else 0)
                 else 0)
              - (if r \<in> set j
                 then (if \<exists>user\<in>set u. c \<in> fst ` set (sp_row Mk user)
                       then learning_rate self * g else 0)
                 else 0))" if "r < n" "c < n" for r c
    using cells [rule_format, OF that] unfolding step_nth [OF that(2)] .
  show ?thesis
  proof (intro exI conjI allI impI)
    show "updateWeightsBatch self u i j = Inr (self\<lparr>S := S4\<rparr>)"
      by (rule run)
    show "is_matrix n n S4"
      by (rule S4(2))
  next
    fix r c assume "r < n" "c < n"
    from final [OF this] show "S4 ! r ! c =
        (let x_uij = (\<lambda>row. \<Sum>item\<leftarrow>map fst (sp_row (URM_mask self) (u ! row)).
                         S self ! (i ! row) ! item - S self ! (j ! row) ! item);
             gradient = (\<Sum>row\<leftarrow>[0..<length u]. sigmoidFunction (- x_uij row)) / real (length u);
             step = (\<lambda>c. if \<exists>user\<in>set u. c \<in> fst ` set (sp_row (URM_mask self) user)
                         then learning_rate self * gradient else 0)
         in if r = c \<and> (r \<in> set i \<or> r \<in> set j) then 0
            else S self ! r ! c + (if r \<in> set i then step c else 0)
                                - (if r \<in> set j then step c else 0))"
      unfolding Let_def g_eq x_def A_def Mk_def .
  qed
qed


theorem updateWeightsBatch_batch_mean_witness:
  "\<exists>S'. updateWeightsBatch example_object [0, 1] [0, 2] [1, 0] = Inr (example_object\<lparr>S := S'\<rparr>) \<and>
        S' ! 0 ! 0 = 0 \<and> S' ! 0 ! 1 = 0 \<and> S' ! 1 ! 0 = - (1 / 2) \<and> S' ! 1 ! 1 = 0 \<and>
        S' ! 2 ! 0 = 1 / 2 \<and> S' ! 2 ! 2 = 0"
proof -
  let ?st = "example_object"
  have bs: "1 < batch_size ?st" and lu: "int (length [0::nat, 1]) = batch_size ?st"
    by (simp_all add: example_object_def)
  have mat: "is_matrix 3 3 (S ?st)"
    by (simp add: example_object_def is_matrix_def)
  have shp: "sp_shape (URM_mask ?st) = (3, 3)"
    by (simp add: example_object_def mask_of_def example_URM_def)
  have ok: "sp_ok (URM_mask ?st)" and msk: "is_mask (URM_mask ?st)"
    by code_simp+
  have rng: "\<forall>x\<in>set [0::nat, 1]. x < 3" "\<forall>x\<in>set [0::nat, 2]. x < 3" "\<forall>x\<in>set [1::nat, 0]. x < 3"
    by simp_all
  have rows: "map fst (sp_row (URM_mask ?st) 0) = [0, 1]" "map fst (sp_row (URM_mask ?st) 1) = [2]"
    by code_simp+
  have rows': "fst ` set (sp_row (URM_mask ?st) 0) = {0, 1}" "fst ` set (sp_row (URM_mask ?st) 1) = {2}"
    using rows [THEN arg_cong, of set] by (simp_all add: insert_commute)
  have S0: "S ?st = [[0, 0, 0], [0, 0, 0], [0, 0, 0]]" and lr: "learning_rate ?st = 1"
    by (simp_all add: example_object_def)
  have upt: "[0..<length [0::nat, 1]] = [0, 1]"
    by code_simp
  from updateWeightsBatch_batch_mean [OF bs lu _ _ mat shp ok msk rng]
  obtain S' where run: "updateWeightsBatch ?st [0, 1] [0, 2] [1, 0] = Inr (?st\<lparr>S := S'\<rparr>)"
    and cells: "\<forall>r<3. \<forall>c<3. S' ! r ! c =
        (let x_uij = (\<lambda>row. \<Sum>item\<leftarrow>map fst (sp_row (URM_mask ?st) ([0, 1] ! row)).
                         S ?st ! ([0, 2] ! row) ! item - S ?st ! ([1, 0] ! row) ! item);
             gradient = (\<Sum>row\<leftarrow>[0..<length [0::nat, 1]]. sigmoidFunction (- x_uij row)) / real (length [0::nat, 1]);
             step = (\<lambda>c. if \<exists>user\<in>set [0, 1]. c \<in> fst ` set (sp_row (URM_mask ?st) user)
                         then learning_rate ?st * gradient else 0)
         in if r = c \<and> (r \<in> set [0, 2] \<or> r \<in> set [1, 0]) then 0
            else S ?st ! r ! c + (if r \<in> set [0, 2] then step c else 0)
                                - (if r \<in> set [1, 0] then step c else 0))"
    by auto
  have vals: "S' ! 0 ! 0 = 0" "S' ! 0 ! 1 = 0" "S' ! 1 ! 0 = - (1 / 2)" "S' ! 1 ! 1 = 0"
       "S' ! 2 ! 0 = 1 / 2" "S' ! 2 ! 2 = 0"
    using cells [rule_format, of 0 0] cells [rule_format, of 0 1] cells [rule_format, of 1 0]
      cells [rule_format, of 1 1] cells [rule_format, of 2 0] cells [rule_format, of 2 2]
    unfolding upt S0 lr Let_def by (simp_all add: rows' sigmoidFunction_def comp_def)
  show ?thesis
    by (rule exI [of _ S']) (use run vals in blast)
qed

lemma shape_set_cells:
  "length (set_cells A ps vs) = length A \<and> length (set_cells A ps vs ! r) = length (A ! r)"
proof -
  have "length (fold (\<lambda>(p, v) B. set_cell B (fst p) (snd p) v) pvs A) = length A \<and>
        length (fold (\<lambda>(p, v) B. set_cell B (fst p) (snd p) v) pvs A ! r) = length (A ! r)"
    for pvs :: "((nat \<times> nat) \<times> real) list"
    by (induction pvs arbitrary: A)
       (auto simp: length_set_cell length_nth_set_cell split: prod.splits)
  then show ?thesis
    by (simp add: set_cells_def)
qed

lemma is_matrix_set_cells_any: "is_matrix m n A \<Longrightarrow> is_matrix m n (set_cells A ps vs)"
  by (simp add: is_matrix_iff shape_set_cells)

lemma is_matrix_update_row:
  "is_matrix m n A \<Longrightarrow> length row = n \<Longrightarrow> is_matrix m n (A[r := row])"
  by (cases "r < length A") (auto simp: is_matrix_iff nth_list_update list_update_beyond)

lemma is_matrix_fold_rows:
  "is_matrix m n A \<Longrightarrow> \<forall>p\<in>set prs. length (snd p) = n \<Longrightarrow>
     is_matrix m n (fold (\<lambda>(r, row) B. B[r := row]) prs A)"
  by (induction prs arbitrary: A) (auto simp: is_matrix_update_row)

lemma is_matrix_set_rows:
  "is_matrix m n A \<Longrightarrow> \<forall>row\<in>set rows. length row = n \<Longrightarrow> is_matrix m n (set_rows A idx rows)"
  unfolding set_rows_def by (rule is_matrix_fold_rows) (auto dest: set_zip_rightD)

lemma iadd_cells_is_matrix:
  "iadd_cells A rows cols x = Inr B \<Longrightarrow> is_matrix m n A \<Longrightarrow> is_matrix m n B"
  by (auto simp: iadd_cells_def bind_e_Inr_iff is_matrix_set_cells_any)

lemma isub_cells_is_matrix:
  "isub_cells A rows cols x = Inr B \<Longrightarrow> is_matrix m n A \<Longrightarrow> is_matrix m n B"
  by (auto simp: isub_cells_def bind_e_Inr_iff is_matrix_set_cells_any)

lemma zero_diag_is_matrix:
  "zero_diag A idx = Inr B \<Longrightarrow> is_matrix m n A \<Longrightarrow> is_matrix m n B"
  by (auto simp: zero_diag_def Let_def is_matrix_set_cells_any split: if_splits)

lemma iadd_rows_is_matrix:
  assumes "iadd_rows A idx vec = Inr B" "is_matrix m n A" "0 < m \<longrightarrow> length vec = n"
  shows "is_matrix m n B"
proof -
  from assms(1) have idx: "\<forall>r\<in>set idx. r < length A"
    and B: "B = set_rows A idx (map (\<lambda>row. map2 (\<lambda>x y. x + y) row vec) (map (\<lambda>r. A ! r) idx))"
    by (auto simp: iadd_rows_def bind_e_Inr_iff get_rows_def list_all_iff split: if_splits)
  show ?thesis
    unfolding B using assms(2,3) idx
    by (intro is_matrix_set_rows) (auto simp: is_matrix_iff)
qed

lemma isub_rows_is_matrix:
  assumes "isub_rows A idx vec = Inr B" "is_matrix m n A" "0 < m \<longrightarrow> length vec = n"
  shows "is_matrix m n B"
proof -
  from assms(1) have idx: "\<forall>r\<in>set idx. r < length A"
    and B: "B = set_rows A idx (map (\<lambda>row. map2 (\<lambda>x y. x - y) row vec) (map (\<lambda>r. A ! r) idx))"
    by (auto simp: isub_rows_def bind_e_Inr_iff get_rows_def list_all_iff split: if_splits)
  show ?thesis
    unfolding B using assms(2,3) idx
    by (intro is_matrix_set_rows) (auto simp: is_matrix_iff)
qed

lemma length_scale_mask: "length (scale_mask x bs) = length bs"
  by (simp add: scale_mask_def)

lemma updateWeightsBatch_Inr:
  assumes "updateWeightsBatch self u i j = Inr self'" "is_matrix n n (S self)"
  shows "is_matrix n n (S self') \<and> self' = self\<lparr>S := S self'\<rparr>"
proof (cases "batch_size self = 1")
  case True
  with assms(1) obtain x seenItems S1 S2 S3 S4 where
    "iadd_cells (S self) i seenItems x = Inr S1" "zero_diag S1 i = Inr S2"
    "isub_cells S2 j seenItems x = Inr S3" "zero_diag S3 j = Inr S4" "self' = self\<lparr>S := S4\<rparr>"
    by (auto simp: updateWeightsBatch_def bind_e_Inr_iff Let_def split: list.splits option.splits)
  note steps = this
  have m1: "is_matrix n n S1"
    using steps(1) assms(2) by (rule iadd_cells_is_matrix)
  have m2: "is_matrix n n S2"
    using steps(2) m1 by (rule zero_diag_is_matrix)
  have m3: "is_matrix n n S3"
    using steps(3) m2 by (rule isub_cells_is_matrix)
  have "is_matrix n n S4"
    using steps(4) m3 by (rule zero_diag_is_matrix)
  with steps(5) show ?thesis
    by simp
next
  case False
  with assms(1) have "\<exists>x_diff x_uij c S1 S2 S3 S4.
      mask_dot_diagonal (URM_mask self) u x_diff (snd (shape (S self))) = Inr x_uij \<and>
      iadd_rows (S self) i (scale_mask c (itemsToUpdate (URM_mask self) u)) = Inr S1 \<and>
      zero_diag S1 i = Inr S2 \<and>
      isub_rows S2 j (scale_mask c (itemsToUpdate (URM_mask self) u)) = Inr S3 \<and>
      zero_diag S3 j = Inr S4 \<and> self' = self\<lparr>S := S4\<rparr>"
    by (simp only: updateWeightsBatch_def if_False Let_def bind_e_Inr_iff) blast
  then obtain x_diff x_uij c S1 S2 S3 S4 where
    dot: "mask_dot_diagonal (URM_mask self) u x_diff (snd (shape (S self))) = Inr x_uij"
    and steps: "iadd_rows (S self) i (scale_mask c (itemsToUpdate (URM_mask self) u)) = Inr S1"
      "zero_diag S1 i = Inr S2"
      "isub_rows S2 j (scale_mask c (itemsToUpdate (URM_mask self) u)) = Inr S3"
      "zero_diag S3 j = Inr S4" "self' = self\<lparr>S := S4\<rparr>"
    by blast
  define step where "step = scale_mask c (itemsToUpdate (URM_mask self) u)"
  have len: "length step = snd (sp_shape (URM_mask self))"
    by (simp add: step_def length_scale_mask length_itemsToUpdate)
  note steps = steps [folded step_def]
  from dot have "snd (sp_shape (URM_mask self)) = snd (shape (S self))"
    by (auto simp: mask_dot_diagonal_def split: if_splits)
  with len assms(2) have vec: "0 < n \<longrightarrow> length step = n"
    by (auto simp: shape_matrix)
  have m1: "is_matrix n n S1"
    using steps(1) assms(2) vec by (rule iadd_rows_is_matrix)
  have m2: "is_matrix n n S2"
    using steps(2) m1 by (rule zero_diag_is_matrix)
  have m3: "is_matrix n n S3"
    using steps(3) m2 vec by (rule isub_rows_is_matrix)
  have "is_matrix n n S4"
    using steps(4) m3 by (rule zero_diag_is_matrix)
  with steps(5) show ?thesis
    by simp
qed

lemma batches_Inr:
  "batches k self g = Some (Inr (self', g')) \<Longrightarrow> is_matrix n n (S self) \<Longrightarrow>
     is_matrix n n (S self') \<and> self' = self\<lparr>S := S self'\<rparr>"
proof (induction k arbitrary: self g)
  case 0
  then show ?case by simp
next
  case (Suc k)
  from Suc.prems(1) obtain us ps ns g1 self1 where
    upd: "updateWeightsBatch self us ps ns = Inr self1"
    and rest: "batches k self1 g1 = Some (Inr (self', g'))"
    by (auto simp: bind_r_Inr_iff lift_e_Inr_iff)
  from updateWeightsBatch_Inr [OF upd Suc.prems(2)]
  have m1: "is_matrix n n (S self1)" and e1: "self1 = self\<lparr>S := S self1\<rparr>"
    by simp_all
  from Suc.IH [OF rest m1] have "is_matrix n n (S self')" and "self' = self1\<lparr>S := S self'\<rparr>"
    by simp_all
  with e1 show ?case
    by (metis slim.surjective slim.update_convs(7))
qed

section \<open>The export and the epoch\<close>

lemma shape_square: "is_matrix n n M \<Longrightarrow> shape M = (n, n)"
  by (cases M) (auto simp: shape_def is_matrix_def)

lemma np_T_matrix:
  assumes "is_matrix n n A"
  shows "is_matrix n n (np_T A)" and "\<And>r c. r < n \<Longrightarrow> c < n \<Longrightarrow> np_T A ! r ! c = A ! c ! r"
proof -
  have T: "np_T A = map (column A) [0..<n]"
    using shape_square [OF assms] by (simp add: np_T_def)
  have len: "length A = n"
    using assms by (simp add: is_matrix_iff)
  show "is_matrix n n (np_T A)"
    using len by (simp add: T is_matrix_iff column_def)
  show "np_T A ! r ! c = A ! c ! r" if "r < n" "c < n" for r c
    using that len by (simp add: T column_def)
qed

lemma fold_concat_list: "fold f (concat xss) = fold (\<lambda>xs. fold f xs) xss"
  by (induction xss) simp_all

lemma zero_cells_fold:
  "zero_cells ntk n A =
     fold (\<lambda>p B. set_cell B (fst p) (snd p) 0)
       (concat (map (\<lambda>idx. map (\<lambda>c. (idx ! c, c)) [0..<n]) ntk)) A"
  by (simp add: zero_cells_def fold_concat_list fold_map comp_def)

lemma cell_zero_cells:
  "zero_cells ntk n A ! r ! c =
     (if (\<exists>idx\<in>set ntk. c < n \<and> idx ! c = r) \<and> in_range A (r, c) then 0 else A ! r ! c)"
  unfolding zero_cells_fold cell_fold_set_cell by auto

lemma is_matrix_zero_cells: "is_matrix m n A \<Longrightarrow> is_matrix m n (zero_cells ntk k A)"
  by (simp add: is_matrix_iff zero_cells_fold shape_fold_set_cell)

lemma topK_dense:
  assumes "is_matrix n n M"
  shows "similarityMatrixTopK srt (Ndarray M) fs k ip =
     (let Wd = zero_cells (slice_to (idx_sorted srt M n) (- min k (int n))) n M
      in Inr (if fs then Sparse (csr_of_dense Wd n) else Ndarray Wd,
              Ndarray (if ip then Wd else M)))"
  using shape_square [OF assms] by (simp add: similarityMatrixTopK_def Let_def)

lemma updateSimilarityMatrix_Inr:
  assumes "is_matrix n n (S self)" "updateSimilarityMatrix srt self = Inr self'"
  shows "is_matrix n n (S self')" and "n_items self' = n_items self"
    and "\<And>r c. r < n \<Longrightarrow> c < n \<Longrightarrow> S self' ! r ! c = S self ! r ! c \<or> S self' ! r ! c = 0"
proof -
  let ?T = "np_T (S self)"
  let ?Wd = "zero_cells (slice_to (idx_sorted srt ?T n) (- min (int_of (topK self)) (int n))) n ?T"
  have T: "is_matrix n n ?T"
    using assms(1) by (rule np_T_matrix)
  have Wd: "is_matrix n n ?Wd"
    using T by (rule is_matrix_zero_cells)
  have cases: "self' = self\<lparr>sparse_weights := True, S := np_T ?Wd,
                   W_sparse := Some (Owned (Sparse (csr_of_dense ?Wd n)))\<rparr>
      \<or> self' = self\<lparr>W_sparse := Some View_S_T\<rparr> \<or> self' = self\<lparr>W := Some View_S_T\<rparr>"
    using assms(2) unfolding updateSimilarityMatrix_def topK_dense [OF T]
    by (auto simp: bind_e_def Let_def split: if_splits)
  have cellT: "np_T ?Wd ! r ! c = S self ! r ! c \<or> np_T ?Wd ! r ! c = 0" if "r < n" "c < n" for r c
    using that np_T_matrix(2) [OF Wd] np_T_matrix(2) [OF assms(1)]
    by (simp add: cell_zero_cells)
  show "is_matrix n n (S self')"
    using cases assms(1) np_T_matrix(1) [OF Wd] by auto
  show "n_items self' = n_items self"
    using cases by auto
  show "S self' ! r ! c = S self ! r ! c \<or> S self' ! r ! c = 0" if "r < n" "c < n" for r c
    using cases cellT [OF that] by auto
qed

lemma zero_diag_Inr:
  assumes "zero_diag A idx = Inr B" "is_matrix m n A"
  shows "is_matrix m n B" and "\<And>k. k \<in> set idx \<Longrightarrow> B ! k ! k = 0"
proof -
  let ?ps = "zip idx idx"
  from assms(1) have ok: "list_all (in_range A) ?ps"
    and B: "B = set_cells A ?ps (map (\<lambda>p. 0) ?ps)"
    by (auto simp: zero_diag_def Let_def split: if_splits)
  show "is_matrix m n B"
    using assms by (rule zero_diag_is_matrix)
  show "B ! k ! k = 0" if "k \<in> set idx" for k
  proof -
    have "(k, k) \<in> set ?ps"
      using that by (induction idx) auto
    moreover from this ok have "in_range A (k, k)"
      by (simp add: list_all_iff)
    ultimately show ?thesis
      unfolding B by (simp add: cell_set_cells)
  qed
qed

text \<open>
  C7. Whenever \<open>epochIteration\<close> completes on an object whose \<open>S\<close> is an
  \<open>n_items\<close> by \<open>n_items\<close> array, every diagonal cell of the new \<open>S\<close> is 0, for
  every batch size and every \<open>topK\<close>: the loop is followed by the zeroing of the
  diagonal, and the export that follows only ever sets further cells to 0.
\<close>

theorem epochIteration_zero_diagonal:
  assumes "is_matrix (n_items self) (n_items self) (S self)"
    and "epochIteration srt self g = Some (Inr (self', g'))"
  shows "n_items self' = n_items self \<and> (\<forall>i<n_items self'. S self' ! i ! i = 0)"
proof -
  let ?n = "n_items self"
  from assms(2) obtain k self1 g1 S2 where
    loop: "batches k self g = Some (Inr (self1, g1))"
    and zero: "zero_diag (S self1) [0..<n_items self1] = Inr S2"
    and export: "updateSimilarityMatrix srt (self1\<lparr>S := S2\<rparr>) = Inr self'"
    by (auto simp: epochIteration_def Let_def bind_r_Inr_iff lift_e_Inr_iff bind_e_Inr_iff
        split: if_splits)
  from batches_Inr [OF loop assms(1)]
  have m1: "is_matrix ?n ?n (S self1)" and e1: "self1 = self\<lparr>S := S self1\<rparr>"
    by simp_all
  from e1 have n1: "n_items self1 = ?n"
    by (metis slim.select_convs(3) slim.surjective slim.update_convs(7))
  from zero_diag_Inr [OF zero m1] n1
  have m2: "is_matrix ?n ?n S2" and d2: "\<And>i. i < ?n \<Longrightarrow> S2 ! i ! i = 0"
    by simp_all
  have m2': "is_matrix ?n ?n (S (self1\<lparr>S := S2\<rparr>))"
    using m2 by simp
  from updateSimilarityMatrix_Inr [OF m2' export] n1 d2
  show ?thesis
    by fastforce
qed



text \<open>One epoch on \<open>example_object\<close> with batch size 5: four positive
  interactions give one batch of five samples.\<close>

lemma example_epoch_batch: "sampleBatch (example_object\<lparr>batch_size := 5\<rparr>) [0, 1, 0, 1, 0, 0, 1, 0, 0, 0, 2, 0, 1, 0, 1]
   = Some (Inr (([0, 1, 0, 1, 0], [0, 2, 0, 2, 0], [1, 0, 2, 1, 1]), []))"
  by code_simp

lemma example_epoch_positives: "int (length (sp_entries (URM_mask (example_object\<lparr>batch_size := 5\<rparr>)))) = 4"
  by code_simp

lemma example_epoch_update: "updateWeightsBatch (example_object\<lparr>batch_size := 5\<rparr>) [0, 1, 0, 1, 0] [0, 2, 0, 2, 0] [1, 0, 2, 1, 1]
   = Inr (example_object\<lparr>batch_size := 5, S := [[0, 0, 0], [- (1 / 2), 0, - (1 / 2)], [0, 0, 0]]\<rparr>)"
  by (simp add: updateWeightsBatch_def example_object_def get_rows_def sub2_def bind_e_def
      mask_dot_diagonal_def mask_of_def example_URM_def shape_def sp_row_def itemsToUpdate_def
      scale_mask_def iadd_rows_def isub_rows_def set_rows_def zero_diag_def in_range_def
      set_cells_def set_cell_def Let_def upt_rec [of 0] upt_rec [of 1] upt_rec [of 2]
      numeral_3_eq_3)


lemma example_epoch_run:
  "epochIteration argsort_stable (example_object\<lparr>batch_size := 5\<rparr>)
       [0, 1, 0, 1, 0, 0, 1, 0, 0, 0, 2, 0, 1, 0, 1]
   = Some (Inr (example_object\<lparr>batch_size := 5,
                  S := [[0, 0, 0], [- (1 / 2), 0, - (1 / 2)], [0, 0, 0]],
                  W := Some View_S_T\<rparr>, []))"
proof -
  have count: "nat (int_quotient 4 5 + 1) = Suc 0"
    by (simp add: int_quotient_def)
  have bs: "batch_size (example_object\<lparr>batch_size := 5\<rparr>) = 5"
    by simp
  have loop: "batches (Suc 0) (example_object\<lparr>batch_size := 5\<rparr>)
       [0, 1, 0, 1, 0, 0, 1, 0, 0, 0, 2, 0, 1, 0, 1]
     = Some (Inr (example_object\<lparr>batch_size := 5,
                    S := [[0, 0, 0], [- (1 / 2), 0, - (1 / 2)], [0, 0, 0]]\<rparr>, []))"
    by (simp only: batches.simps example_epoch_batch example_epoch_update bind_r_def
        lift_e.simps option.case sum.case prod.case)
  show ?thesis
    unfolding epochIteration_def Let_def example_epoch_positives bs count loop
    by (simp add: bind_r_def bind_e_def zero_diag_def in_range_def set_cells_def set_cell_def
        updateSimilarityMatrix_def ne_False_def example_object_def upt_rec [of 0]
        upt_rec [of 1] upt_rec [of 2] numeral_3_eq_3)
qed

theorem epochIteration_zero_diagonal_witness:
  "epochIteration argsort_stable (example_object\<lparr>batch_size := 5\<rparr>)
       [0, 1, 0, 1, 0, 0, 1, 0, 0, 0, 2, 0, 1, 0, 1]
   = Some (Inr (example_object\<lparr>batch_size := 5,
                  S := [[0, 0, 0], [- (1 / 2), 0, - (1 / 2)], [0, 0, 0]],
                  W := Some View_S_T\<rparr>, [])) \<and>
   S (example_object\<lparr>batch_size := 5,
        S := [[0, 0, 0], [- (1 / 2), 0, - (1 / 2)], [0, 0, 0]], W := Some View_S_T\<rparr>) ! 0 ! 0 = 0 \<and>
   S (example_object\<lparr>batch_size := 5,
        S := [[0, 0, 0], [- (1 / 2), 0, - (1 / 2)], [0, 0, 0]], W := Some View_S_T\<rparr>) ! 1 ! 1 = 0 \<and>
   S (example_object\<lparr>batch_size := 5,
        S := [[0, 0, 0], [- (1 / 2), 0, - (1 / 2)], [0, 0, 0]], W := Some View_S_T\<rparr>) ! 2 ! 2 = 0"
proof -
  let ?st = "example_object\<lparr>batch_size := 5\<rparr>"
  let ?st' = "example_object\<lparr>batch_size := 5,
                  S := [[0, 0, 0], [- (1 / 2), 0, - (1 / 2)], [0, 0, 0]], W := Some View_S_T\<rparr>"
  have n: "n_items ?st = 3" "n_items ?st' = 3"
    by (simp_all add: example_object_def)
  have mat: "is_matrix (n_items ?st) (n_items ?st) (S ?st)"
    by (simp add: example_object_def is_matrix_def)
  from epochIteration_zero_diagonal [OF mat example_epoch_run]
  have diag: "\<forall>i<n_items ?st'. S ?st' ! i ! i = 0"
    by blast
  have "S ?st' ! 0 ! 0 = 0" "S ?st' ! 1 ! 1 = 0" "S ?st' ! 2 ! 2 = 0"
    using diag [rule_format, of 0] diag [rule_format, of 1] diag [rule_format, of 2]
    unfolding n by simp_all
  with example_epoch_run show ?thesis
    by blast
qed

section \<open>Top-K selection\<close>

lemma argsort_facts:
  assumes "is_argsort srt"
  shows "length (srt xs) = length xs" and "distinct (srt xs)"
    and "set (srt xs) = {..<length xs}" and "map (\<lambda>i. xs ! i) (srt xs) = sort xs"
proof -
  from assms have m: "mset (srt xs) = mset [0..<length xs]"
    and s: "sorted (map (\<lambda>i. xs ! i) (srt xs))"
    unfolding is_argsort_def by blast+
  from mset_eq_length [OF m] show "length (srt xs) = length xs"
    by simp
  from mset_eq_imp_distinct_iff [OF m] show "distinct (srt xs)"
    by simp
  from mset_eq_setD [OF m] show "set (srt xs) = {..<length xs}"
    by (simp add: atLeast0LessThan)
  have "mset (map (\<lambda>i. xs ! i) (srt xs)) = mset (map (\<lambda>i. xs ! i) [0..<length xs])"
    using m by (simp only: mset_map)
  then have "mset (map (\<lambda>i. xs ! i) (srt xs)) = mset xs"
    by (simp only: map_nth)
  from properties_for_sort [OF this s] show "map (\<lambda>i. xs ! i) (srt xs) = sort xs"
    by simp
qed


lemma argsort_stable_ok: "is_argsort argsort_stable"
  by (simp add: is_argsort_def argsort_stable_def sorted_sort_key del: mset_upt)

text \<open>Setting the cells at the first \<open>j\<close> positions of an argsort to zero keeps,
  as non-zero values, the non-zero ones among the \<open>length col - j\<close> largest.\<close>

lemma masked_column_mset:
  fixes col :: "real list"
  assumes m: "mset p = mset [0..<length col]" and s: "map (\<lambda>i. col ! i) p = sort col"
  shows "mset (filter (\<lambda>v. v \<noteq> 0)
            (map (\<lambda>r. if r \<in> set (take j p) then 0 else col ! r) [0..<length col]))
       = mset (filter (\<lambda>v. v \<noteq> 0) (drop j (sort col)))"
proof -
  let ?g = "\<lambda>r. if r \<in> set (take j p) then 0 else col ! r"
  have d: "distinct p"
    using mset_eq_imp_distinct_iff [OF m] by simp
  have "mset (map ?g [0..<length col]) = mset (map ?g p)"
    using m by (simp only: mset_map)
  also have "map ?g p = map ?g (take j p) @ map ?g (drop j p)"
    by (simp only: map_append [symmetric] append_take_drop_id)
  also have "map ?g (take j p) = map (\<lambda>r. 0) (take j p)"
    by (rule map_cong) auto
  also have "map ?g (drop j p) = map (\<lambda>i. col ! i) (drop j p)"
  proof (rule map_cong [OF refl])
    fix r assume "r \<in> set (drop j p)"
    moreover have "distinct (take j p @ drop j p)"
      using d by simp
    then have "set (take j p) \<inter> set (drop j p) = {}"
      by (simp only: distinct_append)
    ultimately show "?g r = col ! r"
      by auto
  qed
  also have "map (\<lambda>i. col ! i) (drop j p) = drop j (sort col)"
    by (simp only: drop_map [symmetric] s)
  finally have "mset (map ?g [0..<length col]) = mset (map (\<lambda>r. 0) (take j p) @ drop j (sort col))" .
  then have "filter_mset (\<lambda>v. v \<noteq> 0) (mset (map ?g [0..<length col]))
       = filter_mset (\<lambda>v. v \<noteq> 0) (mset (map (\<lambda>r. 0) (take j p) @ drop j (sort col)))"
    by (rule arg_cong)
  then show ?thesis
    by (simp only: mset_filter [symmetric]) (simp add: filter_map comp_def)
qed

lemma sorted_nonneg_split:
  fixes s :: "real list"
  assumes "sorted s" "\<forall>x\<in>set s. 0 \<le> x"
  shows "\<exists>z pos. s = replicate z 0 @ pos \<and> (\<forall>x\<in>set pos. x \<noteq> 0)"
  using assms
proof (induction s)
  case Nil
  then show ?case by simp
next
  case (Cons x s)
  show ?case
  proof (cases "x = 0")
    case True
    from Cons obtain z pos where "s = replicate z 0 @ pos" "\<forall>x\<in>set pos. x \<noteq> 0"
      by auto
    with True have "x # s = replicate (Suc z) 0 @ pos \<and> (\<forall>x\<in>set pos. x \<noteq> 0)"
      by simp
    then show ?thesis by blast
  next
    case False
    with Cons.prems have "0 < x" and "\<forall>y\<in>set s. x \<le> y"
      by auto
    then have "x # s = replicate 0 0 @ (x # s) \<and> (\<forall>y\<in>set (x # s). y \<noteq> 0)"
      by fastforce
    then show ?thesis by blast
  qed
qed

lemma count_top_nonneg:
  fixes col :: "real list"
  assumes nonneg: "\<forall>x\<in>set col. 0 \<le> x" and j: "j \<le> length col"
  shows "count_nonzero (drop j (sort col)) = min (length col - j) (count_nonzero col)"
proof -
  have "sorted (sort col)" and "\<forall>x\<in>set (sort col). 0 \<le> x"
    using nonneg by simp_all
  from sorted_nonneg_split [OF this] obtain z pos where
    split: "sort col = replicate z 0 @ pos" and pos: "\<forall>x\<in>set pos. x \<noteq> 0"
    by blast
  have len: "length col = z + length pos"
    using arg_cong [OF split, of length] by simp
  have "mset (filter (\<lambda>v. v \<noteq> 0) col) = mset (filter (\<lambda>v. v \<noteq> 0) (sort col))"
    by simp
  then have "count_nonzero col = count_nonzero (sort col)"
    unfolding count_nonzero_def by (metis size_mset)
  also have "\<dots> = length pos"
    using pos by (simp add: count_nonzero_def split filter_id_conv)
  finally have nnz: "count_nonzero col = length pos" .
  have "filter (\<lambda>v. v \<noteq> 0) (drop (j - z) pos) = drop (j - z) pos"
    using pos by (auto simp: filter_id_conv dest: in_set_dropD)
  then have "count_nonzero (drop j (sort col)) = length (drop (j - z) pos)"
    by (simp add: count_nonzero_def split)
  with nnz len j show ?thesis
    by auto
qed


lemma column_matrix:
  "is_matrix m n M \<Longrightarrow> length (column M c) = m \<and> (\<forall>r<m. column M c ! r = M ! r ! c)"
  by (simp add: column_def is_matrix_iff)

lemma not_top_k_rows:
  assumes "1 \<le> k" "0 < n" "length M = n"
  shows "slice_to (idx_sorted srt M n) (- min k (int n))
       = map (\<lambda>a. map (\<lambda>c. srt (column M c) ! a) [0..<n]) [0..<n - nat (min k (int n))]"
proof -
  have neg: "- min k (int n) < 0"
    using assms by simp
  have "nat (int n + - min k (int n)) = n - nat (min k (int n))"
    using assms by simp
  then show ?thesis
    using neg assms(3) by (simp add: slice_to_def idx_sorted_def take_map)
qed

lemma dense_topK_column:
  assumes srt: "is_argsort srt" and mat: "is_matrix n n M" and k: "1 \<le> k" and c: "c < n"
  shows "column (zero_cells (slice_to (idx_sorted srt M n) (- min k (int n))) n M) c
       = map (\<lambda>r. if r \<in> set (take (n - nat (min k (int n))) (srt (column M c))) then 0
                   else column M c ! r) [0..<length (column M c)]"
proof -
  define j where "j = n - nat (min k (int n))"
  define p where "p = srt (column M c)"
  define ntk where "ntk = slice_to (idx_sorted srt M n) (- min k (int n))"
  define Wd where "Wd = zero_cells ntk n M"
  have lenM: "length M = n" and lenc: "length (column M c) = n"
    using mat by (simp_all add: is_matrix_iff column_def)
  have lenp: "length p = n"
    using argsort_facts(1) [OF srt, of "column M c"] lenc by (simp add: p_def)
  have jn: "j \<le> n"
    by (simp add: j_def)
  have ntk: "ntk = map (\<lambda>a. map (\<lambda>c. srt (column M c) ! a) [0..<n]) [0..<j]"
    unfolding ntk_def j_def using k c lenM by (intro not_top_k_rows) auto
  have hit: "(\<exists>idx\<in>set ntk. c < n \<and> idx ! c = r) \<longleftrightarrow> r \<in> set (take j p)" for r
  proof -
    have "(\<exists>idx\<in>set ntk. c < n \<and> idx ! c = r) \<longleftrightarrow> (\<exists>a<j. p ! a = r)"
      unfolding ntk p_def using c by auto
    also have "\<dots> \<longleftrightarrow> r \<in> set (take j p)"
    proof
      assume "\<exists>a<j. p ! a = r"
      then obtain a where "a < j" "p ! a = r"
        by blast
      then have "a < length (take j p)" "take j p ! a = r"
        using lenp jn by simp_all
      then show "r \<in> set (take j p)"
        by (metis nth_mem)
    next
      assume "r \<in> set (take j p)"
      then obtain a where "a < length (take j p)" "take j p ! a = r"
        by (auto simp: in_set_conv_nth)
      then have "a < j" "p ! a = r"
        by simp_all
      then show "\<exists>a<j. p ! a = r"
        by blast
    qed
    finally show ?thesis .
  qed
  have Wd: "is_matrix n n Wd"
    unfolding Wd_def using mat by (rule is_matrix_zero_cells)
  have "column Wd c = map (\<lambda>r. if r \<in> set (take j p) then 0 else column M c ! r)
                        [0..<length (column M c)]"
  proof (rule nth_equalityI)
    show "length (column Wd c) = length (map (\<lambda>r. if r \<in> set (take j p) then 0
                   else column M c ! r) [0..<length (column M c)])"
      using column_matrix [OF Wd] lenc by simp
  next
    fix r assume "r < length (column Wd c)"
    then have r: "r < n"
      using column_matrix [OF Wd] by simp
    have "column Wd c ! r = Wd ! r ! c"
      using column_matrix [OF Wd] r by simp
    also have "\<dots> = (if r \<in> set (take j p) then 0 else M ! r ! c)"
      unfolding Wd_def cell_zero_cells hit using r c mat by (simp add: in_range_matrix)
    also have "\<dots> = (if r \<in> set (take j p) then 0 else column M c ! r)"
      using column_matrix [OF mat] r by simp
    finally show "column Wd c ! r = map (\<lambda>r. if r \<in> set (take j p) then 0
                   else column M c ! r) [0..<length (column M c)] ! r"
      using r lenc by simp
  qed
  then show ?thesis
    unfolding Wd_def ntk_def j_def p_def .
qed

lemma dense_topK_mset:
  assumes srt: "is_argsort srt" and mat: "is_matrix n n M" and k: "1 \<le> k" and c: "c < n"
  shows "mset (filter (\<lambda>v. v \<noteq> 0)
            (column (zero_cells (slice_to (idx_sorted srt M n) (- min k (int n))) n M) c))
       = mset (filter (\<lambda>v. v \<noteq> 0) (drop (n - nat (min k (int n))) (sort (column M c))))"
  unfolding dense_topK_column [OF assms]
  by (rule masked_column_mset)
     (use srt in \<open>simp_all add: argsort_facts(4) is_argsort_def\<close>)

subsection \<open>Columns of a sparse matrix\<close>

lemma dense_of_Nil: "dense_of [] r = 0"
  by (simp add: dense_of_def)

lemma dense_of_absent: "r \<notin> fst ` set xs \<Longrightarrow> dense_of xs r = 0"
  by (induction xs) (auto simp: dense_of_def)

lemma dense_of_present:
  "distinct (map fst xs) \<Longrightarrow> (r, v) \<in> set xs \<Longrightarrow> dense_of xs r = v"
proof (induction xs)
  case Nil
  then show ?case by simp
next
  case (Cons e xs)
  show ?case
  proof (cases "e = (r, v)")
    case True
    with Cons.prems have "r \<notin> fst ` set xs"
      by auto
    from dense_of_absent [OF this] True show ?thesis
      by (simp add: dense_of_def)
  next
    case False
    with Cons.prems have in_rest: "(r, v) \<in> set xs" and "fst e \<noteq> r"
      by (auto simp: image_iff)
    with Cons show ?thesis
      by (simp add: dense_of_def)
  qed
qed

lemma dense_of_Cons:
  "dense_of (e # xs) = (\<lambda>r. if r = fst e then snd e + dense_of xs r else dense_of xs r)"
  by (auto simp: dense_of_def fun_eq_iff)

lemma nonzero_update_mset:
  fixes d :: "real list"
  assumes "i < length d" "d ! i = 0"
  shows "mset (filter (\<lambda>v. v \<noteq> 0) (d[i := v]))
       = mset (filter (\<lambda>v. v \<noteq> 0) d) + mset (filter (\<lambda>v. v \<noteq> 0) [v])"
proof -
  have d: "d = take i d @ 0 # drop (Suc i) d"
    using assms by (metis id_take_nth_drop)
  have "d[i := v] = take i d @ v # drop (Suc i) d"
    using assms(1) by (simp add: upd_conv_take_nth_drop)
  then have "mset (filter (\<lambda>v. v \<noteq> 0) (d[i := v]))
      = mset (filter (\<lambda>v. v \<noteq> 0) (take i d @ 0 # drop (Suc i) d)) + mset (filter (\<lambda>v. v \<noteq> 0) [v])"
    by simp
  with d show ?thesis
    by simp
qed

lemma dense_column_mset:
  assumes "distinct (map fst xs)" "\<forall>e\<in>set xs. fst e < n"
  shows "mset (filter (\<lambda>v. v \<noteq> 0) (map (dense_of xs) [0..<n]))
       = mset (filter (\<lambda>v. v \<noteq> 0) (map snd xs))"
  using assms
proof (induction xs)
  case Nil
  then show ?case
    by (simp add: dense_of_Nil filter_empty_conv)
next
  case (Cons e xs)
  let ?d = "map (dense_of xs) [0..<n]"
  have absent: "fst e \<notin> fst ` set xs" and inside: "fst e < n"
    using Cons.prems by auto
  have zero: "?d ! fst e = 0"
    using inside dense_of_absent [OF absent] by simp
  have "map (dense_of (e # xs)) [0..<n] = ?d[fst e := snd e]"
    using inside dense_of_absent [OF absent]
    by (intro nth_equalityI) (auto simp: dense_of_Cons nth_list_update)
  then have "mset (filter (\<lambda>v. v \<noteq> 0) (map (dense_of (e # xs)) [0..<n]))
      = mset (filter (\<lambda>v. v \<noteq> 0) ?d) + mset (filter (\<lambda>v. v \<noteq> 0) [snd e])"
    using nonzero_update_mset [of "fst e" ?d "snd e"] inside zero by simp
  also have "mset (filter (\<lambda>v. v \<noteq> 0) ?d) = mset (filter (\<lambda>v. v \<noteq> 0) (map snd xs))"
    using Cons by simp
  finally show ?case
    by simp
qed


lemma sp_get_dense_of: "sp_get X r c = dense_of (sp_col X c) r"
proof -
  have "filter (\<lambda>e. fst e = r) (map (\<lambda>e. (fst e, snd (snd e))) es)
      = map (\<lambda>e. (fst e, snd (snd e))) (filter (\<lambda>e. fst e = r) es)"
    for es :: "(nat \<times> nat \<times> real) list"
    by (induction es) auto
  then show ?thesis
    by (simp add: sp_get_def dense_of_def sp_col_def comp_def conj_commute)
qed

lemma distinct_map_filter_key:
  assumes "distinct (map k xs)"
    and "\<And>x y. x \<in> set xs \<Longrightarrow> y \<in> set xs \<Longrightarrow> P x \<Longrightarrow> P y \<Longrightarrow> f x = f y \<Longrightarrow> k x = k y"
  shows "distinct (map f (filter P xs))"
  using assms
proof (induction xs)
  case Nil
  then show ?case by simp
next
  case (Cons x xs)
  have rest: "distinct (map f (filter P xs))"
    using Cons by auto
  show ?case
  proof (cases "P x")
    case False
    with rest show ?thesis by simp
  next
    case True
    have "f x \<notin> f ` set (filter P xs)"
    proof
      assume "f x \<in> f ` set (filter P xs)"
      then obtain y where y: "y \<in> set xs" "P y" "f x = f y"
        by auto
      with Cons.prems(2) [of x y] True have "k x = k y"
        by simp
      with y(1) Cons.prems(1) show False
        by (auto simp: image_iff)
    qed
    with rest True show ?thesis by simp
  qed
qed

lemma sp_col_distinct: "sp_canonical X \<Longrightarrow> distinct (map fst (sp_col X c))"
  unfolding sp_col_def sp_canonical_def map_map comp_def fst_conv
  by (rule distinct_map_filter_key [where k = "\<lambda>e. (fst e, fst (snd e))"]) auto

lemma sp_col_rows: "sp_ok X \<Longrightarrow> e \<in> set (sp_col X c) \<Longrightarrow> fst e < fst (sp_shape X)"
  by (auto simp: sp_col_def sp_ok_def list_all_iff)

lemma sp_col_tocsc: "sp_col (tocsc X) c = sp_col X c"
  by (cases "sp_layout X") (simp_all add: tocsc_def sp_col_def sort_key_stable)

lemma sp_get_tocsr: "sp_get (tocsr X) r c = sp_get X r c"
proof (cases "sp_layout X")
  case CSR
  then show ?thesis by (simp add: tocsr_def)
next
  case CSC
  let ?P = "\<lambda>e :: nat \<times> nat \<times> real. fst e = r \<and> fst (snd e) = c"
  have "mset (map (\<lambda>e. snd (snd e)) (filter ?P (sort_key fst (sp_entries X))))
      = mset (map (\<lambda>e. snd (snd e)) (filter ?P (sp_entries X)))"
    by simp
  then have "sum_mset (mset (map (\<lambda>e. snd (snd e)) (filter ?P (sort_key fst (sp_entries X)))))
      = sum_mset (mset (map (\<lambda>e. snd (snd e)) (filter ?P (sp_entries X))))"
    by (rule arg_cong)
  then show ?thesis
    using CSC by (simp only: sum_mset_sum_list) (simp add: tocsr_def sp_get_def)
qed

lemma matrix_column_sparse:
  "sp_shape X = (n, n) \<Longrightarrow> matrix_column (Sparse X) c = map (dense_of (sp_col X c)) [0..<n]"
  by (simp add: matrix_column_def sp_get_dense_of)

lemma sparse_column_mset:
  assumes "sp_shape X = (n, n)" "sp_ok X" "sp_canonical X"
  shows "mset (filter (\<lambda>v. v \<noteq> 0) (matrix_column (Sparse X) c))
       = mset (filter (\<lambda>v. v \<noteq> 0) (map snd (sp_col X c)))"
  unfolding matrix_column_sparse [OF assms(1)]
  using sp_col_distinct [OF assms(3)] sp_col_rows [OF assms(2)] assms(1)
  by (intro dense_column_mset) auto


lemma filter_concat_empty:
  "\<forall>x\<in>set xs. filter P (f x) = [] \<Longrightarrow> filter P (concat (map f xs)) = []"
  by (induction xs) simp_all

lemma filter_concat_upt:
  assumes "\<And>c' e. e \<in> set (f c') \<Longrightarrow> key e = c'" "c < n"
  shows "filter (\<lambda>e. key e = c) (concat (map f [0..<n])) = f c"
  using assms(2)
proof (induction n)
  case 0
  then show ?case by simp
next
  case (Suc n)
  have none: "filter (\<lambda>e. key e = c) (f c') = []" if "c' \<noteq> c" for c'
    using assms(1) [of _ c'] that by (auto simp: filter_empty_conv)
  have all: "filter (\<lambda>e. key e = c) (f c) = f c"
    using assms(1) [of _ c] by (simp add: filter_id_conv)
  show ?case
  proof (cases "c = n")
    case True
    have "filter (\<lambda>e. key e = c) (concat (map f [0..<n])) = []"
      using True none by (intro filter_concat_empty) simp
    with True all show ?thesis by simp
  next
    case False
    with Suc have "filter (\<lambda>e. key e = c) (concat (map f [0..<n])) = f c"
      by simp
    with none [of n] False show ?thesis by simp
  qed
qed

lemma top_k_column_col: "e \<in> set (top_k_column srt X k c) \<Longrightarrow> fst (snd e) = c"
  by (auto simp: top_k_column_def Let_def)

lemma top_k_column_eq:
  assumes srt: "is_argsort srt" and k: "1 \<le> k"
  shows "map (\<lambda>e. (fst e, snd (snd e))) (top_k_column srt X k c)
       = map (\<lambda>t. filter (\<lambda>e. snd e \<noteq> 0) (sp_col X c) ! t)
           (drop (length (filter (\<lambda>e. snd e \<noteq> 0) (sp_col X c)) - nat k)
              (srt (map snd (filter (\<lambda>e. snd e \<noteq> 0) (sp_col X c)))))"
proof -
  define nz where "nz = filter (\<lambda>e. snd e \<noteq> 0) (sp_col X c)"
  define q where "q = srt (map snd nz)"
  have lenq: "length q = length nz" and setq: "set q = {..<length nz}"
    using argsort_facts(1,3) [OF srt, of "map snd nz"] by (simp_all add: q_def)
  have sl: "slice_from q (- k) = drop (length nz - nat k) q"
    using k lenq by (simp add: slice_from_def) (metis nat_diff_distrib' nat_int of_nat_0_le_iff zero_le_one order_trans)
  have zipped: "zip (map fst (sp_col X c)) (map snd (sp_col X c)) = sp_col X c"
    by (simp add: zip_map_fst_snd)
  have "map (\<lambda>e. (fst e, snd (snd e))) (top_k_column srt X k c)
      = map (\<lambda>t. (map fst nz ! t, map snd nz ! t)) (drop (length nz - nat k) q)"
    unfolding top_k_column_def Let_def zipped nz_def [symmetric] q_def [symmetric] sl
    by (simp add: comp_def)
  also have "\<dots> = map (\<lambda>t. nz ! t) (drop (length nz - nat k) q)"
  proof (rule map_cong [OF refl])
    fix t assume "t \<in> set (drop (length nz - nat k) q)"
    then have "t < length nz"
      using setq by (auto dest: in_set_dropD)
    then show "(map fst nz ! t, map snd nz ! t) = nz ! t"
      by simp
  qed
  finally show ?thesis
    unfolding nz_def q_def .
qed


lemma distinct_map_nth:
  assumes "distinct xs" "distinct ts" "\<forall>t\<in>set ts. t < length xs"
  shows "distinct (map (\<lambda>t. xs ! t) ts)"
  using assms by (auto simp: distinct_map inj_on_def nth_eq_iff_index_eq)

lemma top_k_columns_output:
  assumes srt: "is_argsort srt" and shp: "sp_shape X = (n, n)" and ok: "sp_ok X"
    and can: "sp_canonical X" and k: "1 \<le> k" and c: "c < n"
  defines "out \<equiv> tocsr \<lparr>sp_layout = CSC, sp_shape = (n, n),
       sp_entries = concat (map (top_k_column srt X (min k (int n))) [0..<n])\<rparr>"
  shows "mset (filter (\<lambda>v. v \<noteq> 0) (matrix_column (Sparse out) c))
       = mset (drop (length (filter (\<lambda>v. v \<noteq> 0) (map snd (sp_col X c))) - nat (min k (int n)))
                 (sort (filter (\<lambda>v. v \<noteq> 0) (map snd (sp_col X c)))))"
    and "\<And>r. r < n \<Longrightarrow> sp_get out r c = sp_get X r c \<or> sp_get out r c = 0"
proof -
  define k' where "k' = min k (int n)"
  define nz where "nz = filter (\<lambda>e. snd e \<noteq> 0) (sp_col X c)"
  define q where "q = srt (map snd nz)"
  define sel where "sel = drop (length nz - nat k') q"
  define E where "E = \<lparr>sp_layout = CSC, sp_shape = (n, n),
       sp_entries = concat (map (top_k_column srt X k') [0..<n])\<rparr>"
  define outcol where "outcol = map (\<lambda>t. nz ! t) sel"
  have k': "1 \<le> k'"
    using k c by (simp add: k'_def)
  have out: "out = tocsr E"
    by (simp add: out_def E_def k'_def)
  have col_E: "sp_col E c = outcol"
  proof -
    have "filter (\<lambda>e. fst (snd e) = c) (sp_entries E) = top_k_column srt X k' c"
      unfolding E_def using c by (simp add: filter_concat_upt top_k_column_col)
    then have "sp_col E c
        = map (\<lambda>e. (fst e, snd (snd e))) (top_k_column srt X k' c)"
      by (simp add: sp_col_def)
    also have "\<dots> = outcol"
      unfolding top_k_column_eq [OF srt k']
      by (simp add: outcol_def sel_def q_def nz_def)
    finally show ?thesis .
  qed
  have lenq: "length q = length nz" and setq: "set q = {..<length nz}" and dq: "distinct q"
    and sq: "map (\<lambda>i. map snd nz ! i) q = sort (map snd nz)"
    using argsort_facts [OF srt, of "map snd nz"] by (simp_all add: q_def)
  have sel_lt: "\<forall>t\<in>set sel. t < length nz"
    using setq by (auto simp: sel_def dest: in_set_dropD)
  have dsel: "distinct sel"
    using dq by (simp add: sel_def)
  have dcol: "distinct (map fst (sp_col X c))"
    using can by (rule sp_col_distinct)
  have dnz: "distinct (map fst nz)"
    unfolding nz_def using dcol by (simp add: distinct_map_filter)
  have in_nz: "set outcol \<subseteq> set nz"
    using sel_lt by (auto simp: outcol_def)
  have sub: "set outcol \<subseteq> set (sp_col X c)"
    using in_nz by (auto simp: nz_def)
  have fst_out: "map fst outcol = map (\<lambda>t. map fst nz ! t) sel"
    using sel_lt by (simp add: outcol_def)
  have dout: "distinct (map fst outcol)"
    unfolding fst_out using dnz dsel sel_lt by (intro distinct_map_nth) simp_all
  have rows: "\<forall>e\<in>set outcol. fst e < n"
    using sub sp_col_rows [OF ok] shp by auto
  have snd_out: "map snd outcol = drop (length nz - nat k') (sort (map snd nz))"
  proof -
    have "map snd outcol = map (\<lambda>t. map snd nz ! t) sel"
      using sel_lt by (simp add: outcol_def)
    also have "\<dots> = drop (length nz - nat k') (map (\<lambda>i. map snd nz ! i) q)"
      by (simp add: sel_def drop_map)
    finally show ?thesis
      by (simp only: sq)
  qed
  have nonzero: "\<forall>v\<in>set (map snd outcol). v \<noteq> 0"
    using in_nz by (auto simp: nz_def)
  have shape_out: "sp_shape out = (n, n)"
    by (simp add: out tocsr_def E_def)
  have get_out: "sp_get out r c = dense_of outcol r" for r
    unfolding out sp_get_tocsr by (simp add: sp_get_dense_of col_E)
  have column_out: "matrix_column (Sparse out) c = map (dense_of outcol) [0..<n]"
    using shape_out by (simp add: matrix_column_def get_out)
  have nzd: "map snd nz = filter (\<lambda>v. v \<noteq> 0) (map snd (sp_col X c))"
    by (simp add: nz_def filter_map comp_def)
  have "mset (filter (\<lambda>v. v \<noteq> 0) (matrix_column (Sparse out) c))
      = mset (filter (\<lambda>v. v \<noteq> 0) (map snd outcol))"
    unfolding column_out using dout rows by (rule dense_column_mset)
  also have "filter (\<lambda>v. v \<noteq> 0) (map snd outcol) = map snd outcol"
    using nonzero by (simp add: filter_id_conv)
  finally show "mset (filter (\<lambda>v. v \<noteq> 0) (matrix_column (Sparse out) c))
       = mset (drop (length (filter (\<lambda>v. v \<noteq> 0) (map snd (sp_col X c))) - nat (min k (int n)))
                 (sort (filter (\<lambda>v. v \<noteq> 0) (map snd (sp_col X c)))))"
    unfolding snd_out nzd [symmetric] k'_def by simp
  show "sp_get out r c = sp_get X r c \<or> sp_get out r c = 0" if "r < n" for r
  proof (cases "r \<in> fst ` set outcol")
    case False
    then show ?thesis
      by (simp add: get_out dense_of_absent)
  next
    case True
    then obtain v where v: "(r, v) \<in> set outcol"
      by auto
    with sub have "(r, v) \<in> set (sp_col X c)"
      by auto
    from dense_of_present [OF dcol this] dense_of_present [OF dout v]
    show ?thesis
      unfolding get_out by (simp add: sp_get_dense_of)
  qed
qed

subsection \<open>The cast of a canonical matrix of float32 values\<close>

lemma merge_duplicates_distinct:
  "distinct (map (\<lambda>e. (fst e, fst (snd e))) es) \<Longrightarrow> merge_duplicates add es = es"
  by (induction add es rule: merge_duplicates.induct) auto

lemma mset_index_order: "mset (index_order l es) = mset es"
  by (cases l) (simp_all add: index_order_def)

lemma distinct_map_mset:
  assumes "mset xs = mset ys"
  shows "distinct (map f xs) \<longleftrightarrow> distinct (map f ys)"
proof -
  from assms have "mset (map f xs) = mset (map f ys)"
    by simp
  then show ?thesis
    by (rule mset_eq_imp_distinct_iff)
qed

lemma sum_duplicates_canonical:
  assumes "sp_canonical X"
  shows "sp_entries (sum_duplicates add X) = index_order (sp_layout X) (sp_entries X)"
    and "sp_shape (sum_duplicates add X) = sp_shape X"
proof -
  have "distinct (map (\<lambda>e. (fst e, fst (snd e))) (index_order (sp_layout X) (sp_entries X)))"
    using assms
      distinct_map_mset [OF mset_index_order, of "\<lambda>e. (fst e, fst (snd e))" "sp_layout X" "sp_entries X"]
    by (simp add: sp_canonical_def)
  then have "merge_duplicates add (index_order (sp_layout X) (sp_entries X))
      = index_order (sp_layout X) (sp_entries X)"
    by (rule merge_duplicates_distinct)
  then show "sp_entries (sum_duplicates add X) = index_order (sp_layout X) (sp_entries X)"
    by (simp add: sum_duplicates_def)
  show "sp_shape (sum_duplicates add X) = sp_shape X"
    by (simp add: sum_duplicates_def)
qed

lemma mset_tocsc: "mset (sp_entries (tocsc X)) = mset (sp_entries X)"
  by (cases "sp_layout X") (simp_all add: tocsc_def)

lemma shape_tocsc: "sp_shape (tocsc X) = sp_shape X"
  by (cases "sp_layout X") (simp_all add: tocsc_def)

lemma check_matrix_csc_canonical:
  assumes can: "sp_canonical X" and f32: "sp_float32 X"
  shows "mset (sp_entries (check_matrix_csc X)) = mset (sp_entries X)"
    and "sp_shape (check_matrix_csc X) = sp_shape X"
proof -
  define Y where "Y = tocsc X"
  have setY: "set (sp_entries Y) = set (sp_entries X)"
    unfolding Y_def by (rule mset_eq_setD [OF mset_tocsc])
  have "map (\<lambda>e. (fst e, fst (snd e), float32 (snd (snd e)))) (sp_entries Y) = sp_entries Y"
    using f32 setY by (intro map_idI) (auto simp: sp_float32_def list_all_iff)
  then have cast: "Y\<lparr>sp_entries := map (\<lambda>e. (fst e, fst (snd e), float32 (snd (snd e)))) (sp_entries Y)\<rparr> = Y"
    by simp
  have canY: "sp_canonical Y"
    using can distinct_map_mset [OF mset_tocsc, of "\<lambda>e. (fst e, fst (snd e))" X]
    by (simp add: sp_canonical_def Y_def)
  have Yc: "check_matrix_csc X = sum_duplicates (\<lambda>a b. float32 (a + b)) Y"
    by (simp only: check_matrix_csc_def astype_float32_def Y_def [symmetric] cast)
  show "mset (sp_entries (check_matrix_csc X)) = mset (sp_entries X)"
    unfolding Yc sum_duplicates_canonical(1) [OF canY] mset_index_order
    by (simp add: Y_def mset_tocsc)
  show "sp_shape (check_matrix_csc X) = sp_shape X"
    unfolding Yc sum_duplicates_canonical(2) [OF canY] by (simp add: Y_def shape_tocsc)
qed

lemma same_entries:
  assumes "mset (sp_entries Y) = mset (sp_entries X)"
  shows "sp_ok X \<Longrightarrow> sp_shape Y = sp_shape X \<Longrightarrow> sp_ok Y"
    and "sp_canonical X \<Longrightarrow> sp_canonical Y"
    and "sp_get Y r c = sp_get X r c"
proof -
  have setY: "set (sp_entries Y) = set (sp_entries X)"
    using assms by (rule mset_eq_setD)
  show "sp_ok X \<Longrightarrow> sp_shape Y = sp_shape X \<Longrightarrow> sp_ok Y"
    using setY by (simp add: sp_ok_def list_all_iff)
  show "sp_canonical X \<Longrightarrow> sp_canonical Y"
    using distinct_map_mset [OF assms, of "\<lambda>e. (fst e, fst (snd e))"]
    by (simp add: sp_canonical_def)
  let ?P = "\<lambda>e :: nat \<times> nat \<times> real. fst e = r \<and> fst (snd e) = c"
  have "mset (map (\<lambda>e. snd (snd e)) (filter ?P (sp_entries Y)))
      = mset (map (\<lambda>e. snd (snd e)) (filter ?P (sp_entries X)))"
    using assms by simp
  then have "sum_mset (mset (map (\<lambda>e. snd (snd e)) (filter ?P (sp_entries Y))))
      = sum_mset (mset (map (\<lambda>e. snd (snd e)) (filter ?P (sp_entries X))))"
    by (rule arg_cong)
  then show "sp_get Y r c = sp_get X r c"
    by (simp only: sum_mset_sum_list) (simp add: sp_get_def)
qed

lemma take_min_length: "length xs \<le> n \<Longrightarrow> take (min a n) xs = take a xs"
  by (cases "a \<le> n") (simp_all add: min_def)

subsection \<open>The selection on non-negative matrices\<close>

lemma sort_nonneg_nonzero:
  fixes d :: "real list"
  assumes nonneg: "\<forall>x\<in>set d. 0 \<le> x" and same: "mset (filter (\<lambda>v. v \<noteq> 0) d) = mset nzd"
  shows "filter (\<lambda>v. v \<noteq> 0) (drop (length d - j) (sort d)) = drop (length nzd - j) (sort nzd)"
proof -
  have "sorted (sort d)" and "\<forall>x\<in>set (sort d). 0 \<le> x"
    using nonneg by simp_all
  from sorted_nonneg_split [OF this] obtain z pos where
    split: "sort d = replicate z 0 @ pos" and pos: "\<forall>x\<in>set pos. x \<noteq> 0"
    by blast
  have "filter (\<lambda>v. v \<noteq> 0) (sort d) = pos"
    using pos by (simp add: split filter_id_conv)
  moreover have "filter (\<lambda>v. v \<noteq> 0) (sort d) = sort (filter (\<lambda>v. v \<noteq> 0) d)"
    by (rule filter_sort)
  moreover have "sort (filter (\<lambda>v. v \<noteq> 0) d) = sort nzd"
    using same by (intro properties_for_sort) simp_all
  ultimately have p: "pos = sort nzd"
    by simp
  have len: "length d = z + length nzd"
    using arg_cong [OF split, of length] p by simp
  have "filter (\<lambda>v. v \<noteq> 0) (drop (length d - j - z) pos) = drop (length d - j - z) pos"
    using pos by (auto simp: filter_id_conv dest: in_set_dropD)
  then have "filter (\<lambda>v. v \<noteq> 0) (drop (length d - j) (sort d)) = drop (length d - j - z) pos"
    by (simp add: split)
  also have "length d - j - z = length nzd - j"
    using len by simp
  finally show ?thesis
    using p by simp
qed

lemma topK_from_mset:
  fixes col :: "real list"
  assumes a: "mset (filter (\<lambda>v. v \<noteq> 0) out)
              = mset (filter (\<lambda>v. v \<noteq> 0) (drop (length col - nat (min k (int (length col)))) (sort col)))"
    and nonneg: "\<forall>x\<in>set col. 0 \<le> x" and k: "1 \<le> k"
  shows "count_nonzero out = min (nat k) (count_nonzero col)"
    and "mset (filter (\<lambda>v. v \<noteq> 0) out) \<subseteq># mset (take (nat k) (rev (sort col)))"
proof -
  define n where "n = length col"
  define j where "j = n - nat (min k (int n))"
  have jn: "j \<le> n" and nj: "n - j = min (nat k) n"
    using k by (auto simp: j_def)
  have "count_nonzero out = count_nonzero (drop j (sort col))"
    using mset_eq_length [OF a] by (simp add: count_nonzero_def j_def n_def)
  also have "\<dots> = min (n - j) (count_nonzero col)"
    unfolding n_def using nonneg jn by (intro count_top_nonneg) (simp_all add: n_def)
  also have "\<dots> = min (nat k) (count_nonzero col)"
    using nj length_filter_le [of "\<lambda>v. v \<noteq> 0" col]
    unfolding count_nonzero_def n_def by linarith
  finally show "count_nonzero out = min (nat k) (count_nonzero col)" .
  have "mset (filter (\<lambda>v. v \<noteq> 0) out) \<subseteq># mset (drop j (sort col))"
    using a by (simp add: j_def n_def)
  also have "mset (drop j (sort col)) = mset (rev (drop j (sort col)))"
    by simp
  also have "rev (drop j (sort col)) = take (n - j) (rev (sort col))"
    by (simp add: rev_drop n_def)
  also have "\<dots> = take (nat k) (rev (sort col))"
    unfolding nj by (simp add: n_def min_def)
  finally show "mset (filter (\<lambda>v. v \<noteq> 0) out) \<subseteq># mset (take (nat k) (rev (sort col)))" .
qed

lemma sp_get_csr_of_dense:
  assumes "r < n" "c < n"
  shows "sp_get (csr_of_dense A n) r c = A ! r ! c"
proof -
  let ?row = "\<lambda>r. concat (map (\<lambda>c. if A ! r ! c \<noteq> 0 then [(r, c, A ! r ! c)] else []) [0..<n])"
  let ?cellf = "\<lambda>c. if A ! r ! c \<noteq> 0 then [(r, c, A ! r ! c)] else []"
  have "filter (\<lambda>e. fst e = r \<and> fst (snd e) = c) (concat (map ?row [0..<n]))
      = filter (\<lambda>e. fst (snd e) = c) (filter (\<lambda>e. fst e = r) (concat (map ?row [0..<n])))"
    by (simp add: conj_commute)
  also have "filter (\<lambda>e. fst e = r) (concat (map ?row [0..<n])) = ?row r"
    using assms(1) by (intro filter_concat_upt) (auto split: if_splits)
  also have "filter (\<lambda>e. fst (snd e) = c) (?row r) = ?cellf c"
    using assms(2) by (intro filter_concat_upt) (auto split: if_splits)
  finally show ?thesis
    by (simp add: sp_get_def csr_of_dense_def)
qed


lemma matrix_column_dense:
  assumes "is_matrix n n M"
  shows "matrix_column (Ndarray M) c = column M c"
proof -
  have "length M = n"
    using assms by (simp add: is_matrix_iff)
  then have "map (\<lambda>r. M ! r ! c) [0..<n] = map (\<lambda>row. row ! c) M"
    by (intro nth_equalityI) simp_all
  then show ?thesis
    using shape_square [OF assms] by (simp add: matrix_column_def column_def)
qed

lemma shape_csr_of_dense: "sp_shape (csr_of_dense A n) = (n, n)"
  by (simp add: csr_of_dense_def)

lemma matrix_column_csr_of_dense:
  assumes "is_matrix n n A" "c < n"
  shows "matrix_column (Sparse (csr_of_dense A n)) c = column A c"
proof -
  have "length A = n"
    using assms by (simp add: is_matrix_iff)
  then have "map (\<lambda>r. sp_get (csr_of_dense A n) r c) [0..<n] = map (\<lambda>row. row ! c) A"
    using assms(2) by (intro nth_equalityI) (simp_all add: sp_get_csr_of_dense)
  then show ?thesis
    by (simp add: matrix_column_def column_def shape_csr_of_dense)
qed

lemma topK_dense_column:
  assumes srt: "is_argsort srt" and mat: "is_matrix n n M" and k: "1 \<le> k" and c: "c < n"
    and nonneg: "\<forall>r<n. 0 \<le> M ! r ! c"
  defines "Wd \<equiv> zero_cells (slice_to (idx_sorted srt M n) (- min k (int n))) n M"
  shows "count_nonzero (column Wd c) = min (nat k) (count_nonzero (column M c))"
    and "mset (filter (\<lambda>v. v \<noteq> 0) (column Wd c)) \<subseteq># mset (take (nat k) (rev (sort (column M c))))"
    and "\<And>r. r < n \<Longrightarrow> Wd ! r ! c = M ! r ! c \<or> Wd ! r ! c = 0"
proof -
  have len: "length (column M c) = n"
    using column_matrix [OF mat] by simp
  have a: "mset (filter (\<lambda>v. v \<noteq> 0) (column Wd c))
      = mset (filter (\<lambda>v. v \<noteq> 0)
          (drop (length (column M c) - nat (min k (int (length (column M c))))) (sort (column M c))))"
    unfolding Wd_def len by (rule dense_topK_mset [OF srt mat k c])
  have nn: "\<forall>x\<in>set (column M c). 0 \<le> x"
    using nonneg column_matrix [OF mat, of c] len by (auto simp: in_set_conv_nth)
  show "count_nonzero (column Wd c) = min (nat k) (count_nonzero (column M c))"
    using a nn k by (rule topK_from_mset)
  show "mset (filter (\<lambda>v. v \<noteq> 0) (column Wd c)) \<subseteq># mset (take (nat k) (rev (sort (column M c))))"
    using a nn k by (rule topK_from_mset)
  show "Wd ! r ! c = M ! r ! c \<or> Wd ! r ! c = 0" if "r < n" for r
    by (simp add: Wd_def cell_zero_cells)
qed

lemma similarityMatrixTopK_dense_nonnegative:
  assumes srt: "is_argsort srt" and mat: "is_matrix n n M" and k: "1 \<le> k"
    and nonneg: "\<forall>r<n. \<forall>c<n. 0 \<le> M ! r ! c"
  shows "\<exists>B A'. similarityMatrixTopK srt (Ndarray M) forceSparseOutput k inplace = Inr (B, A') \<and>
           matrix_shape B = (n, n) \<and>
           (\<forall>c<n. count_nonzero (matrix_column B c)
                      = min (nat k) (count_nonzero (column M c)) \<and>
                   mset (filter (\<lambda>v. v \<noteq> 0) (matrix_column B c))
                      \<subseteq># mset (take (nat k) (rev (sort (column M c)))) \<and>
                   (\<forall>r<n. cell B r c = M ! r ! c \<or> cell B r c = 0))"
proof -
  define Wd where "Wd = zero_cells (slice_to (idx_sorted srt M n) (- min k (int n))) n M"
  define B where "B = (if forceSparseOutput then Sparse (csr_of_dense Wd n) else Ndarray Wd)"
  have matW: "is_matrix n n Wd"
    unfolding Wd_def using mat by (rule is_matrix_zero_cells)
  have run: "similarityMatrixTopK srt (Ndarray M) forceSparseOutput k inplace
      = Inr (B, Ndarray (if inplace then Wd else M))"
    unfolding topK_dense [OF mat] by (simp add: Let_def B_def Wd_def)
  have shapeB: "matrix_shape B = (n, n)"
    using shape_square [OF matW] by (simp add: B_def shape_csr_of_dense)
  have colB: "matrix_column B c = column Wd c" if "c < n" for c
    using matW that by (simp add: B_def matrix_column_dense matrix_column_csr_of_dense)
  have cellB: "cell B r c = Wd ! r ! c" if "r < n" "c < n" for r c
    using that by (simp add: B_def sp_get_csr_of_dense)
  have "count_nonzero (matrix_column B c) = min (nat k) (count_nonzero (column M c)) \<and>
        mset (filter (\<lambda>v. v \<noteq> 0) (matrix_column B c))
           \<subseteq># mset (take (nat k) (rev (sort (column M c)))) \<and>
        (\<forall>r<n. cell B r c = M ! r ! c \<or> cell B r c = 0)" if c: "c < n" for c
  proof -
    have nn: "\<forall>r<n. 0 \<le> M ! r ! c"
      using nonneg c by simp
    from topK_dense_column [OF srt mat k c nn, folded Wd_def] show ?thesis
      by (simp add: colB [OF c] cellB c)
  qed
  with run shapeB show ?thesis
    by blast
qed

subsection \<open>The selection on sparse matrices\<close>

text \<open>
  The sparse branch ranks the stored non-zero values only. On a canonical matrix of
  float32 values it keeps, in every column, the \<open>k\<close> largest non-zero values (all of
  them when the column has fewer), whatever their sign.
\<close>

lemma similarityMatrixTopK_sparse_branch:
  assumes srt: "is_argsort srt" and shp: "sp_shape X = (n, n)" and ok: "sp_ok X"
    and can: "sp_canonical X" and f32: "sp_float32 X" and k: "1 \<le> k"
  shows "\<exists>B. similarityMatrixTopK srt (Sparse X) forceSparseOutput k inplace
                = Inr (Sparse B, Sparse X) \<and>
           sp_shape B = (n, n) \<and>
           (\<forall>c<n. count_nonzero (matrix_column (Sparse B) c)
                      = min (nat k) (count_nonzero (matrix_column (Sparse X) c)) \<and>
                   mset (filter (\<lambda>v. v \<noteq> 0) (matrix_column (Sparse B) c))
                      = mset (take (nat k)
                           (rev (sort (filter (\<lambda>v. v \<noteq> 0) (matrix_column (Sparse X) c))))) \<and>
                   (\<forall>r<n. sp_get B r c = sp_get X r c \<or> sp_get B r c = 0))"
proof -
  define Y where "Y = check_matrix_csc X"
  define out where "out = tocsr \<lparr>sp_layout = CSC, sp_shape = (n, n),
       sp_entries = concat (map (top_k_column srt Y (min k (int n))) [0..<n])\<rparr>"
  have msY: "mset (sp_entries Y) = mset (sp_entries X)" and shY: "sp_shape Y = (n, n)"
    using check_matrix_csc_canonical [OF can f32] shp by (simp_all add: Y_def)
  have okY: "sp_ok Y" and canY: "sp_canonical Y"
    and getY: "sp_get Y r c = sp_get X r c" for r c
    using same_entries [OF msY] ok can shY shp by simp_all
  have colY: "matrix_column (Sparse Y) c = matrix_column (Sparse X) c" for c
    by (simp add: matrix_column_def shY shp getY)
  have run: "similarityMatrixTopK srt (Sparse X) forceSparseOutput k inplace
      = Inr (Sparse out, Sparse X)"
    using shp by (simp add: similarityMatrixTopK_def Let_def out_def Y_def)
  have shape_out: "sp_shape out = (n, n)"
    by (simp add: out_def tocsr_def)
  have "count_nonzero (matrix_column (Sparse out) c)
           = min (nat k) (count_nonzero (matrix_column (Sparse X) c)) \<and>
        mset (filter (\<lambda>v. v \<noteq> 0) (matrix_column (Sparse out) c))
           = mset (take (nat k)
                (rev (sort (filter (\<lambda>v. v \<noteq> 0) (matrix_column (Sparse X) c))))) \<and>
        (\<forall>r<n. sp_get out r c = sp_get X r c \<or> sp_get out r c = 0)" if c: "c < n" for c
  proof -
    define nzd where "nzd = filter (\<lambda>v. v \<noteq> 0) (map snd (sp_col Y c))"
    define colX where "colX = filter (\<lambda>v. v \<noteq> 0) (matrix_column (Sparse X) c)"
    define j where "j = nat (min k (int n))"
    have same: "mset colX = mset nzd"
      unfolding colX_def nzd_def colY [symmetric] using shY okY canY by (rule sparse_column_mset)
    then have srt_eq: "sort nzd = sort colX"
      by (intro properties_for_sort) simp_all
    have len: "length nzd = length colX"
      using same by (metis mset_eq_length)
    have "length (matrix_column (Sparse X) c) = n"
      by (simp add: matrix_column_def shp)
    then have m: "length colX \<le> n"
      unfolding colX_def using length_filter_le [of "\<lambda>v. v \<noteq> 0" "matrix_column (Sparse X) c"]
      by simp
    have j: "j = min (nat k) n"
      using k by (simp add: j_def)
    have out1: "mset (filter (\<lambda>v. v \<noteq> 0) (matrix_column (Sparse out) c))
        = mset (drop (length colX - j) (sort colX))"
      using top_k_columns_output(1) [OF srt shY okY canY k c]
      by (simp add: out_def nzd_def [symmetric] len srt_eq j_def)
    have "mset (drop (length colX - j) (sort colX)) = mset (rev (drop (length colX - j) (sort colX)))"
      by simp
    also have "rev (drop (length colX - j) (sort colX))
        = take (length colX - (length colX - j)) (rev (sort colX))"
      by (simp add: rev_drop)
    also have "length colX - (length colX - j) = min j (length colX)"
      by simp
    also have "take (min j (length colX)) (rev (sort colX)) = take j (rev (sort colX))"
      by (simp add: min_def)
    also have "\<dots> = take (nat k) (rev (sort colX))"
      unfolding j using m by (intro take_min_length) simp
    finally have out2: "mset (filter (\<lambda>v. v \<noteq> 0) (matrix_column (Sparse out) c))
        = mset (take (nat k) (rev (sort colX)))"
      using out1 by simp
    have "count_nonzero (matrix_column (Sparse out) c) = length (take (nat k) (rev (sort colX)))"
      unfolding count_nonzero_def using out2 by (metis mset_eq_length)
    also have "\<dots> = min (nat k) (count_nonzero (matrix_column (Sparse X) c))"
      by (simp add: colX_def count_nonzero_def min.commute)
    finally have cnt: "count_nonzero (matrix_column (Sparse out) c)
        = min (nat k) (count_nonzero (matrix_column (Sparse X) c))" .
    have cells: "sp_get out r c = sp_get X r c \<or> sp_get out r c = 0" if "r < n" for r
      using top_k_columns_output(2) [OF srt shY okY canY k c that]
      by (simp add: out_def getY)
    from cnt out2 cells show ?thesis
      by (simp add: colX_def)
  qed
  with run shape_out show ?thesis
    by blast
qed

subsection \<open>The dense branch on a column with a negative cell\<close>


text \<open>
  The same at the only call of the function in the class: \<^verbatim>\<open>updateSimilarityMatrix\<close>
  passes \<^verbatim>\<open>self.S.T\<close>, whose weights are negative wherever an item was sampled as the
  negative one. With \<open>S\<close> holding the single weight \<open>-1\<close> and \<^verbatim>\<open>topK = 1\<close> the
  export is empty and the weight is gone from \<open>S\<close> as well.
\<close>

lemma export_clears_negative_weight:
  "bind_e (updateSimilarityMatrix argsort_stable
        (example_object\<lparr>S := [[0, - 1, 0], [0, 0, 0], [0, 0, 0]], topK := PyInt 1\<rparr>))
       (\<lambda>s. Inr (S s, W_sparse s))
     = Inr ([[0, 0, 0], [0, 0, 0], [0, 0, 0]],
         Some (Owned (Sparse \<lparr>sp_layout = CSR, sp_shape = (3, 3), sp_entries = []\<rparr>)))"
  by code_simp

text \<open>A run of the sparse branch on float32 values, one of them negative.\<close>

lemma similarityMatrixTopK_sparse_example:
  "sp_float32 \<lparr>sp_layout = CSR, sp_shape = (2, 2),
               sp_entries = [(0, 0, - 3), (0, 1, 1 / 2), (1, 1, 2)]\<rparr> \<and>
   similarityMatrixTopK argsort_stable
       (Sparse \<lparr>sp_layout = CSR, sp_shape = (2, 2),
                sp_entries = [(0, 0, - 3), (0, 1, 1 / 2), (1, 1, 2)]\<rparr>) True 1 True
     = Inr (Sparse \<lparr>sp_layout = CSR, sp_shape = (2, 2), sp_entries = [(0, 0, - 3), (1, 1, 2)]\<rparr>,
            Sparse \<lparr>sp_layout = CSR, sp_shape = (2, 2),
                    sp_entries = [(0, 0, - 3), (0, 1, 1 / 2), (1, 1, 2)]\<rparr>)"
  by code_simp

text \<open>The cast rounds: 16777217 is not a float32 value, and the sparse branch ranks and
  returns the rounded values. In the column below both values are 16777216 after the cast;
  the stable argsort puts the entry of row 1 last, and that entry is the one kept.\<close>

lemma float32_rounds: "float32 16777217 = 16777216"
  by code_simp

lemma similarityMatrixTopK_sparse_rounds:
  "similarityMatrixTopK argsort_stable
       (Sparse \<lparr>sp_layout = CSR, sp_shape = (2, 2),
                sp_entries = [(0, 0, 16777217), (1, 0, 16777216)]\<rparr>) True 1 True
     = Inr (Sparse \<lparr>sp_layout = CSR, sp_shape = (2, 2), sp_entries = [(1, 0, 16777216)]\<rparr>,
            Sparse \<lparr>sp_layout = CSR, sp_shape = (2, 2),
                    sp_entries = [(0, 0, 16777217), (1, 0, 16777216)]\<rparr>)"
  by code_simp

text \<open>A cell stored twice is summed by the cast before the ranking.\<close>

lemma similarityMatrixTopK_sparse_duplicates:
  "similarityMatrixTopK argsort_stable
       (Sparse \<lparr>sp_layout = CSC, sp_shape = (2, 2),
                sp_entries = [(1, 0, 2), (0, 0, 3), (1, 0, 2)]\<rparr>) True 1 True
     = Inr (Sparse \<lparr>sp_layout = CSR, sp_shape = (2, 2), sp_entries = [(1, 0, 4)]\<rparr>,
            Sparse \<lparr>sp_layout = CSC, sp_shape = (2, 2),
                    sp_entries = [(1, 0, 2), (0, 0, 3), (1, 0, 2)]\<rparr>)"
  by code_simp


section \<open>Further properties of the sampler and the recommender\<close>

subsection \<open>The mask and the fast sampler\<close>

lemma mask_of_invariants:
  "sp_shape (mask_of X t) = sp_shape X" "is_mask (mask_of X t)"
  "sp_ok X \<Longrightarrow> sp_ok (mask_of X t)"
  by (auto simp: mask_of_def is_mask_def sp_ok_def list_all_iff split: if_splits)

lemma mask_of_row:
  "map fst (sp_row (mask_of X t) u) = map fst (filter (\<lambda>e. t \<le> snd e) (sp_row X u))"
proof -
  have "map fst (map snd (filter (\<lambda>e. fst e = u) (filter (\<lambda>e. snd (snd e) \<noteq> 0)
          (map (\<lambda>e. (fst e, fst (snd e), if t \<le> snd (snd e) then 1 else (0::real))) es))))
      = map fst (filter (\<lambda>e. t \<le> snd e) (map snd (filter (\<lambda>e. fst e = u) es)))"
    for es :: "(nat \<times> nat \<times> real) list"
    by (induction es) auto
  then show ?thesis
    by (simp add: mask_of_def sp_row_def)
qed

lemma positive_part_row:
  "sp_row (positive_part X t) u
     = filter (\<lambda>e. t < snd e \<and> snd e \<noteq> 0) (sp_row (sum_duplicates (+) X) u)"
proof -
  have "map snd (filter (\<lambda>e. fst e = u) (filter (\<lambda>e. t < snd (snd e) \<and> snd (snd e) \<noteq> 0) es))
      = filter (\<lambda>e. t < snd e \<and> snd e \<noteq> 0) (map snd (filter (\<lambda>e. fst e = u) es))"
    for es :: "(nat \<times> nat \<times> real) list"
    by (induction es) auto
  then show ?thesis
    by (simp add: positive_part_def sp_row_def Let_def)
qed

lemma topK_check_iff: "ne_False topk \<and> int_of topk < 1 \<longleftrightarrow> (\<exists>n<0. topk = PyInt n)"
  by (cases topk) (auto simp: ne_False_def)

lemma initializeFastSampling_prefix:
  assumes "m \<le> fst (sp_shape (URM_train self))"
  shows "fold (\<lambda>user_id acc. bind_e acc (\<lambda>s.
              bind_e (getrow (positive_part (URM_train self) t) user_id) (\<lambda>row.
                if 0 < length row
                then Inr (s\<lparr>eligibleUsers := eligibleUsers s @ [user_id],
                            userSeenItems := (userSeenItems s)(user_id \<mapsto> map fst row)\<rparr>)
                else Inr s)))
        [0..<m]
        (Inr (s0\<lparr>eligibleUsers := [], userSeenItems := Map.empty\<rparr>))
     = Inr (s0\<lparr>eligibleUsers := filter (\<lambda>u. sp_row (positive_part (URM_train self) t) u \<noteq> []) [0..<m],
                userSeenItems := (\<lambda>u. if u < m \<and> sp_row (positive_part (URM_train self) t) u \<noteq> []
                     then Some (map fst (sp_row (positive_part (URM_train self) t) u)) else None)\<rparr>)"
  using assms
proof (induction m)
  case 0
  then show ?case by simp
next
  case (Suc m)
  then have "m < fst (sp_shape (positive_part (URM_train self) t))"
    by (simp add: positive_part_def sum_duplicates_def Let_def)
  with Suc show ?case
    by (auto simp: bind_e_def getrow_def fun_eq_iff less_Suc_eq)
qed

lemma initializeFastSampling_result:
  assumes "n_users self = fst (sp_shape (URM_train self))"
  shows "initializeFastSampling self t
     = Inr (self\<lparr>URM_train := (if t < 0 then URM_train self
                                 else sum_duplicates (+) (URM_train self)),
                  eligibleUsers := filter (\<lambda>u. sp_row (positive_part (URM_train self) t) u \<noteq> [])
                                      [0..<n_users self],
                  userSeenItems := (\<lambda>u. if u < n_users self \<and> sp_row (positive_part (URM_train self) t) u \<noteq> []
                       then Some (map fst (sp_row (positive_part (URM_train self) t) u)) else None)\<rparr>)"
proof -
  define s0 where "s0 = self\<lparr>URM_train := (if t < 0 then URM_train self
                                            else sum_duplicates (+) (URM_train self))\<rparr>"
  have "n_users self \<le> fst (sp_shape (URM_train self))"
    using assms by simp
  from initializeFastSampling_prefix [OF this, of t s0] show ?thesis
    unfolding initializeFastSampling_def Let_def s0_def by simp
qed

subsection \<open>The export without a top-K selection\<close>

lemma updateSimilarityMatrix_without_topK:
  "\<not> ne_False (topK self) \<Longrightarrow> updateSimilarityMatrix srt self = Inr self' \<Longrightarrow> S self' = S self"
  by (auto simp: updateSimilarityMatrix_def split: if_splits)


subsection \<open>Recommendations that leave room for the seen items\<close>

lemma sorted_None_first:
  fixes ks :: "score list"
  assumes "sorted ks"
  shows "\<exists>z rest. ks = replicate z None @ rest \<and> (\<forall>k\<in>set rest. k \<noteq> None)"
  using assms
proof (induction ks)
  case Nil
  then show ?case by simp
next
  case (Cons k ks)
  show ?case
  proof (cases k)
    case None
    from Cons obtain z rest where "ks = replicate z None @ rest" "\<forall>k\<in>set rest. k \<noteq> None"
      by auto
    with None have "k # ks = replicate (Suc z) None @ rest \<and> (\<forall>k\<in>set rest. k \<noteq> None)"
      by simp
    then show ?thesis by blast
  next
    case (Some v)
    have "y \<noteq> None" if "y \<in> set ks" for y
    proof
      assume "y = None"
      with that Cons.prems Some have "Some v \<le> None"
        by auto
      then show False
        by simp
    qed
    then have "\<forall>y\<in>set ks. y \<noteq> None"
      by blast
    with Some have "k # ks = replicate 0 None @ (k # ks) \<and> (\<forall>y\<in>set (k # ks). y \<noteq> None)"
      by simp
    then show ?thesis by blast
  qed
qed

lemma ranking_minus_infinity_last:
  fixes sc :: "score list"
  assumes srt: "is_argsort srt"
    and a: "a + card {i. i < length sc \<and> sc ! i = None} \<le> length sc"
  shows "\<forall>t\<in>set (take a (rev (srt sc))). sc ! t \<noteq> None"
proof -
  define p where "p = srt sc"
  define n where "n = length sc"
  have lenp: "length p = n" and dp: "distinct p" and setp: "set p = {..<n}"
    and keys: "map (\<lambda>i. sc ! i) p = sort sc"
    using argsort_facts [OF srt, of sc] by (simp_all add: p_def n_def)
  have "sorted (map (\<lambda>i. sc ! i) p)"
    by (simp add: keys)
  from sorted_None_first [OF this] obtain z rest where
    split: "map (\<lambda>i. sc ! i) p = replicate z None @ rest" and rest: "\<forall>k\<in>set rest. k \<noteq> None"
    by blast
  have "length (filter (\<lambda>i. sc ! i = None) p) = length (filter (\<lambda>k. k = None) (map (\<lambda>i. sc ! i) p))"
    by (simp add: filter_map comp_def)
  also have "\<dots> = z"
    using rest by (simp add: split filter_empty_conv)
  finally have "z = length (filter (\<lambda>i. sc ! i = None) p)"
    by simp
  also have "\<dots> = card (set (filter (\<lambda>i. sc ! i = None) p))"
    using dp distinct_card [of "filter (\<lambda>i. sc ! i = None) p"] by simp
  also have "set (filter (\<lambda>i. sc ! i = None) p) = {i. i < length sc \<and> sc ! i = None}"
    using setp by (auto simp: n_def)
  finally have z: "z = card {i. i < length sc \<and> sc ! i = None}" .
  with a have az: "z \<le> n - a" and an: "a \<le> n"
    by (simp_all add: n_def)
  show ?thesis
  proof
    fix t assume "t \<in> set (take a (rev (srt sc)))"
    then have "t \<in> set (drop (n - a) p)"
      by (simp add: take_rev p_def lenp [unfolded p_def])
    then obtain i where i: "i < length (drop (n - a) p)" "drop (n - a) p ! i = t"
      by (auto simp: in_set_conv_nth)
    then have pos: "n - a + i < n" "p ! (n - a + i) = t"
      using lenp by simp_all
    have "map (\<lambda>i. sc ! i) p ! (n - a + i) = rest ! (n - a + i - z)"
      using az by (simp add: split nth_append)
    moreover have "n - a + i - z < length rest"
      using arg_cong [OF split, of length] lenp pos(1) az by simp
    ultimately have "map (\<lambda>i. sc ! i) p ! (n - a + i) \<noteq> None"
      using rest by (metis nth_mem)
    with pos lenp show "sc ! t \<noteq> None"
      by simp
  qed
qed

lemma filter_seen_Inr:
  assumes "filter_seen self user_id scores = Inr sc"
  shows "length sc = length scores"
    and "\<And>i. i < length scores \<Longrightarrow>
           sc ! i = (if i \<in> fst ` set (sp_row (URM_train self) user_id) then None else scores ! i)"
proof -
  let ?seen = "map fst (sp_row (URM_train self) user_id)"
  have fold_len: "length (fold (\<lambda>item sc. sc[item := None]) xs ys) = length ys"
    for xs and ys :: "score list"
    by (induction xs arbitrary: ys) simp_all
  have fold_nth: "i < length ys \<Longrightarrow>
      fold (\<lambda>item sc. sc[item := None]) xs ys ! i = (if i \<in> set xs then None else ys ! i)"
    for xs i and ys :: "score list"
  proof (induction xs arbitrary: ys)
    case Nil
    then show ?case by simp
  next
    case (Cons x xs)
    then show ?case
      by (cases "x = i") (auto simp: nth_list_update)
  qed
  from assms have sc: "sc = fold (\<lambda>item sc. sc[item := None]) ?seen scores"
    by (auto simp: filter_seen_def Let_def split: if_splits)
  show "length sc = length scores"
    by (simp add: sc fold_len)
  show "sc ! i = (if i \<in> fst ` set (sp_row (URM_train self) user_id) then None else scores ! i)"
    if "i < length scores" for i
    using fold_nth [OF that, of ?seen] by (simp add: sc)
qed

lemma length_row_dot: "length (row_dot row X) = snd (sp_shape X)"
  by (simp add: row_dot_def)

lemma recommend_unseen_prefix:
  assumes srt: "is_argsort srt"
    and X: "W_sparse self = Some (Owned (Sparse X))"
    and run: "recommend srt self user_id (Some (int a)) True = Inr items"
    and a: "a + card (fst ` set (sp_row (URM_train self) user_id)) \<le> snd (sp_shape X)"
  shows "set items \<inter> fst ` set (sp_row (URM_train self) user_id) = {}"
proof -
  let ?seen = "fst ` set (sp_row (URM_train self) user_id)"
  let ?raw = "map Some (row_dot (sp_row (URM_train self) user_id) X)"
  from run X obtain scores where
    fs: "filter_seen self user_id ?raw = Inr scores"
    and items: "items = take a (rev (srt scores))"
    by (auto simp: recommend_def bind_e_Inr_iff getrow_def Let_def slice_to_def
        split: if_splits)
  note sc = filter_seen_Inr [OF fs]
  have len: "length scores = snd (sp_shape X)"
    using sc(1) by (simp add: length_row_dot)
  have nth: "scores ! i = None \<longleftrightarrow> i \<in> ?seen" if "i < length scores" for i
    using sc(2) [of i] that len by (simp add: length_row_dot)
  have "{i. i < length scores \<and> scores ! i = None} \<subseteq> ?seen"
    using nth by blast
  then have "card {i. i < length scores \<and> scores ! i = None} \<le> card ?seen"
    by (intro card_mono) simp_all
  with a len have "a + card {i. i < length scores \<and> scores ! i = None} \<le> length scores"
    by simp
  from ranking_minus_infinity_last [OF srt this]
  have some: "\<forall>t\<in>set items. scores ! t \<noteq> None"
    by (simp add: items)
  have "set items \<subseteq> set (rev (srt scores))"
    unfolding items by (rule set_take_subset)
  also have "\<dots> = {..<length scores}"
    using argsort_facts(3) [OF srt, of scores] by simp
  finally have inside: "set items \<subseteq> {..<length scores}" .
  show ?thesis
  proof (rule ccontr)
    assume "set items \<inter> ?seen \<noteq> {}"
    then obtain t where t: "t \<in> set items" "t \<in> ?seen"
      by blast
    with inside have "t < length scores"
      by auto
    with nth t(2) have "scores ! t = None"
      by simp
    with some t(1) show False
      by blast
  qed
qed

end
